theory Spec2Isabelle
  imports Main
begin

unbundle bit_operations_syntax

section \<open>Shared data: numeric types, errors, signatures\<close>

text \<open>
  The enumeration \<^verbatim>\<open>types.Type\<close> / \<^verbatim>\<open>types.RType\<close> of the module \<^verbatim>\<open>types\<close>: the three
  numeric types, and \<open>Void\<close> for the return type of a function without result.
\<close>

datatype Type = I32 | F32 | F64 | Void

text \<open>
  Every condition the JavaScript raises is a value. \<open>E_MORE\<close> is the buffer queue's
  recoverable "insufficient room" signal (\<^verbatim>\<open>util.BufferQueue.E_MORE\<close>); the others are the
  fatal ones, carrying their message.
\<close>

datatype error =
    E_MORE
  | Error string
  | AssertionError string
  | RangeError string
  | TypeError string

record FunctionSignature =
  sig_index :: nat
  returnType :: Type
  argumentTypes :: "Type list"

record FunctionDeclaration =
  decl_signature :: FunctionSignature
  decl_index :: nat

section \<open>Function definitions (reflect/FunctionDefinition.js)\<close>

text \<open>
  Modelled from the spec: the class \<^verbatim>\<open>LocalVariable\<close> (reflect/LocalVariable.js is not
  among the sources). The spec describes it as a type plus a flag distinguishing an
  argument from a declared local, the index being positional with the arguments first.
\<close>

record LocalVariable =
  var_type :: Type
  isArgument :: bool

text \<open>
  Statement nodes live in a store and are addressed by identity (see the section on
  statements); a function's \<^verbatim>\<open>ast\<close> is the list of its root statements, \<open>None\<close> while it
  is still \<^verbatim>\<open>null\<close>.
\<close>

type_synonym addr = nat

record FunctionDefinition =
  def_declaration :: FunctionDeclaration
  variables :: "LocalVariable list"
  byteOffset :: int
  byteLength :: int
  ast :: "addr list option"

text \<open>
  JavaScript's \<^verbatim>\<open>x || -1\<close> on an optional number: an omitted argument (\<open>None\<close>) and the
  number 0 are falsy and give -1, every other number is kept. Numbers are integers in this
  model.
\<close>

definition orMinusOne :: "int option \<Rightarrow> int" where
  "orMinusOne x = (case x of None \<Rightarrow> - 1 | Some v \<Rightarrow> if v = 0 then - 1 else v)"

text \<open>
  The constructor (lines 18-59). The variable table is filled by position: one variable
  per argument type of the signature, then \<open>nI32vars\<close> I32 locals, \<open>nF32vars\<close> F32 locals
  and \<open>nF64vars\<close> F64 locals.
\<close>

definition new_FunctionDefinition ::
  "FunctionDeclaration \<Rightarrow> nat \<Rightarrow> nat \<Rightarrow> nat \<Rightarrow> int option \<Rightarrow> int option \<Rightarrow> FunctionDefinition" where
  "new_FunctionDefinition decl nI32vars nF32vars nF64vars byteOffset' byteLength' =
     \<lparr> def_declaration = decl,
       variables =
         map (\<lambda>t. \<lparr> var_type = t, isArgument = True \<rparr>) (argumentTypes (decl_signature decl))
         @ replicate nI32vars \<lparr> var_type = I32, isArgument = False \<rparr>
         @ replicate nF32vars \<lparr> var_type = F32, isArgument = False \<rparr>
         @ replicate nF64vars \<lparr> var_type = F64, isArgument = False \<rparr>,
       byteOffset = orMinusOne byteOffset',
       byteLength = orMinusOne byteLength',
       ast = None \<rparr>"

text \<open>
  Modelled from the spec: \<^verbatim>\<open>util.assertInteger(name, value, min, max)\<close> (util is not among
  the sources). The spec says of its one use here that an out-of-range index fails with a
  range error.
\<close>

definition assertInteger :: "string \<Rightarrow> int \<Rightarrow> int \<Rightarrow> int \<Rightarrow> error + unit" where
  "assertInteger name v lo hi =
     (if lo \<le> v \<and> v \<le> hi then Inr () else Inl (RangeError (name @ '' out of bounds'')))"

text \<open>\<^verbatim>\<open>getVariable\<close> (lines 102-105).\<close>

definition getVariable :: "FunctionDefinition \<Rightarrow> int \<Rightarrow> error + LocalVariable" where
  "getVariable fd i =
     (case assertInteger ''index'' i 0 (int (length (variables fd)) - 1) of
        Inl e \<Rightarrow> Inl e
      | Inr _ \<Rightarrow> Inr (variables fd ! nat i))"

section \<open>Statements and expressions\<close>

text \<open>
  Modelled from the spec: the node classes (stmt/BaseStmt.js, stmt/BaseExpr.js and
  stmt/ExprI32.js are not among the sources). A node carries an opcode, an ordered list of
  operands, each a nested node or an immediate value, and is a statement or an expression
  with a declared result type. \<^verbatim>\<open>x instanceof ExprI32\<close> is \<open>Expr I32\<close>, and
  \<^verbatim>\<open>x instanceof BaseExpr\<close> is any \<open>Expr t\<close>.

  The optimizer compares nodes by identity and overwrites operand slots in place, so nodes
  are kept in a store and referred to by address: \<^verbatim>\<open>a === b\<close> is equality of addresses,
  and an operand that is \<^verbatim>\<open>instanceof BaseStmt\<close> is \<open>Node a\<close>.
\<close>

datatype NodeClass = Stmt | Expr Type

datatype operand = Node addr | Imm int

record BaseStmt =
  node_class :: NodeClass
  code :: nat
  operands :: "operand list"

type_synonym store = "addr \<Rightarrow> BaseStmt"

definition isExprI32 :: "store \<Rightarrow> operand \<Rightarrow> bool" where
  "isExprI32 h x = (case x of Node a \<Rightarrow> node_class (h a) = Expr I32 | Imm v \<Rightarrow> False)"

definition isBaseExpr :: "store \<Rightarrow> operand \<Rightarrow> bool" where
  "isBaseExpr h x =
     (case x of Node a \<Rightarrow> (case node_class (h a) of Expr t \<Rightarrow> True | Stmt \<Rightarrow> False)
      | Imm v \<Rightarrow> False)"

text \<open>The \<^verbatim>\<open>type\<close> property of an expression node.\<close>

definition exprType :: "store \<Rightarrow> operand \<Rightarrow> Type option" where
  "exprType h x =
     (case x of Node a \<Rightarrow> (case node_class (h a) of Expr t \<Rightarrow> Some t | Stmt \<Rightarrow> None)
      | Imm v \<Rightarrow> None)"

subsection \<open>Load and Store behaviors (stmt/behavior/LoadBehavior.js, StoreBehavior.js)\<close>

text \<open>
  \<^verbatim>\<open>StoreBehavior.prototype.validate\<close> (lines 41-48): four assertions in this order. The
  behavior's \<^verbatim>\<open>heapType\<close> is a parameter, and so is the table \<^verbatim>\<open>types.RTypeNames\<close> (types is
  not among the sources) that names it in the last message. The \<^verbatim>\<open>definition\<close> argument
  is not used by the source.
\<close>

definition StoreBehavior_validate ::
  "(Type \<Rightarrow> string) \<Rightarrow> Type \<Rightarrow> store \<Rightarrow> addr \<Rightarrow> error + unit" where
  "StoreBehavior_validate RTypeNames heapType h stmt =
     (if length (operands (h stmt)) \<noteq> 2
      then Inl (AssertionError ''Store requires exactly 2 operands'')
      else if \<not> isExprI32 h (operands (h stmt) ! 0)
      then Inl (AssertionError ''Store heap index (operand 0) must be an I32 expression'')
      else if \<not> isBaseExpr h (operands (h stmt) ! 1)
      then Inl (AssertionError ''Store value (operand 1) must be an expression'')
      else if exprType h (operands (h stmt) ! 1) \<noteq> Some heapType
      then Inl (AssertionError
             (''Store value (operand 1) expression must be '' @ RTypeNames heapType))
      else Inr ())"

text \<open>\<^verbatim>\<open>LoadBehavior.prototype.validate\<close> (lines 39-43).\<close>

definition LoadBehavior_validate :: "store \<Rightarrow> addr \<Rightarrow> error + unit" where
  "LoadBehavior_validate h stmt =
     (if length (operands (h stmt)) \<noteq> 1
      then Inl (AssertionError ''Load requires exactly 1 operand'')
      else if \<not> isExprI32 h (operands (h stmt) ! 0)
      then Inl (AssertionError ''Load heap index (operand 0) must be an I32 expression'')
      else Inr ())"

subsection \<open>The optimizer pass (reflect/FunctionDefinition.js, lines 107-157)\<close>

text \<open>The operands that are nodes, in operand order.\<close>

fun stmts :: "operand list \<Rightarrow> addr list" where
  "stmts [] = []"
| "stmts (Node a # ops) = a # stmts ops"
| "stmts (Imm v # ops) = stmts ops"

text \<open>What the inner loop of \<^verbatim>\<open>replace\<close> does to one operand slot (lines 117-122).\<close>

definition subst :: "addr \<Rightarrow> addr \<Rightarrow> operand \<Rightarrow> operand" where
  "subst oldStmt newStmt x = (if x = Node oldStmt then Node newStmt else x)"

text \<open>
  The work loop of \<^verbatim>\<open>replace\<close> (lines 114-126). The stack is a list whose head is the
  top. One round pops \<open>current\<close>, overwrites each of its slots that holds \<open>oldStmt\<close>, and
  pushes every node operand as it was read before the overwrite, operand 0 first, so the
  last operand ends on top. On a cyclic structure the loop does not return: the result is
  then \<open>None\<close>.
\<close>

partial_function (option) replace_walk :: "store \<Rightarrow> addr list \<Rightarrow> addr \<Rightarrow> addr \<Rightarrow> store option" where
  "replace_walk h stack oldStmt newStmt =
     (case stack of
        [] \<Rightarrow> Some h
      | current # rest \<Rightarrow>
          replace_walk
            (h(current := (h current)\<lparr>operands := map (subst oldStmt newStmt) (operands (h current))\<rparr>))
            (rev (stmts (operands (h current))) @ rest)
            oldStmt newStmt)"

text \<open>
  \<^verbatim>\<open>replace(ast, oldStmt, newStmt)\<close> (lines 107-127). The first loop runs over the root
  list from its last index down: it pushes the root as it was, then overwrites the slot
  when the root is \<open>oldStmt\<close>; root 0 ends on top of the stack. The result is the store
  and the root list after the call.
\<close>

definition replace :: "store \<Rightarrow> addr list \<Rightarrow> addr \<Rightarrow> addr \<Rightarrow> (store \<times> addr list) option" where
  "replace h roots oldStmt newStmt =
     (case replace_walk h roots oldStmt newStmt of
        None \<Rightarrow> None
      | Some h' \<Rightarrow> Some (h', map (\<lambda>a. if a = oldStmt then newStmt else a) roots))"

text \<open>
  The behaviors' \<^verbatim>\<open>optimize\<close> functions are not among the sources; they are a parameter.
  \<open>B h stmt = None\<close> says that the behavior of \<open>stmt\<close> has no \<^verbatim>\<open>optimize\<close> function;
  \<open>Some (h', s)\<close> is the store it leaves (it may allocate nodes and rewrite nodes in place)
  and the node it returns.
\<close>

type_synonym optimizer = "store \<Rightarrow> addr \<Rightarrow> (store \<times> addr) option"

text \<open>
  One round of the loop of \<^verbatim>\<open>optimize\<close> for the popped node \<open>stmt\<close> (lines 139-154), on
  the store, the root list, the rest of the stack and the counter. The operands pushed at
  the end are those of \<open>stmt\<close>, the popped node, read after \<^verbatim>\<open>replace\<close> has returned;
  they are pushed from the last down, so operand 0 ends on top.
\<close>

definition optimize_visit ::
  "optimizer \<Rightarrow> store \<Rightarrow> addr list \<Rightarrow> addr \<Rightarrow> addr list \<Rightarrow> nat
     \<Rightarrow> (store \<times> addr list \<times> addr list \<times> nat) option" where
  "optimize_visit B h roots stmt rest n =
     (case B h stmt of
        None \<Rightarrow> Some (h, roots, stmts (operands (h stmt)) @ rest, n)
      | Some (h1, optimizedStmt) \<Rightarrow>
          if optimizedStmt \<noteq> stmt then
            (case replace h1 roots stmt optimizedStmt of
               None \<Rightarrow> None
             | Some (h2, roots2) \<Rightarrow>
                 Some (h2, roots2, stmts (operands (h2 stmt)) @ rest, n + 1))
          else if code (h1 optimizedStmt) \<noteq> code (h stmt) then
            Some (h1, roots, stmts (operands (h1 stmt)) @ rest, n + 1)
          else Some (h1, roots, stmts (operands (h1 stmt)) @ rest, n))"

partial_function (option) optimize_loop ::
  "optimizer \<Rightarrow> store \<Rightarrow> addr list \<Rightarrow> addr list \<Rightarrow> nat \<Rightarrow> (store \<times> addr list \<times> nat) option" where
  "optimize_loop B h roots stack n =
     (case stack of
        [] \<Rightarrow> Some (h, roots, n)
      | stmt # rest \<Rightarrow>
          (case optimize_visit B h roots stmt rest n of
             None \<Rightarrow> None
           | Some (h', roots', stack', n') \<Rightarrow> optimize_loop B h' roots' stack' n'))"

text \<open>
  \<^verbatim>\<open>FunctionDefinition.prototype.optimize\<close> (lines 133-157): the roots are pushed from
  the last down, so the stack starts as the root list itself. Reading \<^verbatim>\<open>this.ast.length\<close>
  while \<^verbatim>\<open>ast\<close> is still \<^verbatim>\<open>null\<close> is a type error. The result is the store, the
  definition with its root list, and the count; \<open>None\<close> when the loop does not return.
\<close>

definition optimize ::
  "optimizer \<Rightarrow> store \<Rightarrow> FunctionDefinition \<Rightarrow> (error + store \<times> FunctionDefinition \<times> nat) option" where
  "optimize B h fd =
     (case ast fd of
        None \<Rightarrow> Some (Inl (TypeError ''Cannot read property length of null''))
      | Some roots \<Rightarrow>
          (case optimize_loop B h roots roots 0 of
             None \<Rightarrow> None
           | Some (h', roots', n) \<Rightarrow> Some (Inr (h', fd\<lparr>ast := Some roots'\<rparr>, n))))"

section \<open>The buffer queue (util.BufferQueue)\<close>

text \<open>
  Modelled from the spec: the class \<^verbatim>\<open>util.BufferQueue\<close> (util is not among the
  sources). The spec's accumulator stages primitive writes and exposes them to the
  destination only on an explicit commit; a commit fails with the recoverable signal
  \<open>E_MORE\<close> when the destination's capacity is smaller than the staged batch.

  \<open>room\<close> is the capacity of the destination buffers pushed so far (the writer pushes one
  buffer of the requested size per read). The committed bytes fill its front; a batch is
  committed only if it fits behind them. \<^verbatim>\<open>reset\<close> drops the staged batch, \<^verbatim>\<open>toBuffer\<close>
  gives the committed bytes, and \<^verbatim>\<open>clear\<close> drops the buffers with everything in them.
  Bytes are natural numbers below 256.
\<close>

type_synonym byte = nat

record BufferQueue =
  room :: nat
  committed :: "byte list"
  staged :: "byte list"

definition new_BufferQueue :: BufferQueue where
  "new_BufferQueue = \<lparr> room = 0, committed = [], staged = [] \<rparr>"

definition push :: "nat \<Rightarrow> BufferQueue \<Rightarrow> BufferQueue" where
  "push n q = q\<lparr>room := room q + n\<rparr>"

text \<open>Variable-length unsigned integers, LEB128 style: seven bits per byte, low bits first.\<close>

fun varint :: "nat \<Rightarrow> byte list" where
  "varint n = (if n < 128 then [n] else (128 + n mod 128) # varint (n div 128))"

declare varint.simps [simp del]

text \<open>Little-endian bytes of a 32-bit and of a 64-bit pattern.\<close>

definition bytes4LE :: "nat \<Rightarrow> byte list" where
  "bytes4LE v =
     [v mod 256, v div 256 mod 256, v div 65536 mod 256, v div 16777216 mod 256]"

definition bytes8LE :: "nat \<Rightarrow> byte list" where
  "bytes8LE v = bytes4LE (v mod 4294967296) @ bytes4LE (v div 4294967296)"

definition writeUInt8 :: "nat \<Rightarrow> BufferQueue \<Rightarrow> BufferQueue" where
  "writeUInt8 v q = q\<lparr>staged := staged q @ [v mod 256]\<rparr>"

definition writeUInt32LE :: "nat \<Rightarrow> BufferQueue \<Rightarrow> BufferQueue" where
  "writeUInt32LE v q = q\<lparr>staged := staged q @ bytes4LE v\<rparr>"

definition writeVarint :: "nat \<Rightarrow> BufferQueue \<Rightarrow> BufferQueue" where
  "writeVarint v q = q\<lparr>staged := staged q @ varint v\<rparr>"

text \<open>
  Floating-point constants are kept as their IEEE-754 images (a 32-bit and a 64-bit
  pattern), so writing one is writing its bytes, low byte first.
\<close>

definition writeFloatLE :: "nat \<Rightarrow> BufferQueue \<Rightarrow> BufferQueue" where
  "writeFloatLE v q = q\<lparr>staged := staged q @ bytes4LE v\<rparr>"

definition writeDoubleLE :: "nat \<Rightarrow> BufferQueue \<Rightarrow> BufferQueue" where
  "writeDoubleLE v q = q\<lparr>staged := staged q @ bytes8LE v\<rparr>"

text \<open>A name followed by a NUL byte.\<close>

definition cstring :: "string \<Rightarrow> byte list" where
  "cstring s = map of_char s @ [0]"

definition writeCString :: "string \<Rightarrow> BufferQueue \<Rightarrow> BufferQueue" where
  "writeCString s q = q\<lparr>staged := staged q @ cstring s\<rparr>"

definition commit :: "BufferQueue \<Rightarrow> error + BufferQueue" where
  "commit q =
     (if length (committed q) + length (staged q) \<le> room q
      then Inr (q\<lparr>committed := committed q @ staged q, staged := []\<rparr>)
      else Inl E_MORE)"

definition reset :: "BufferQueue \<Rightarrow> BufferQueue" where
  "reset q = q\<lparr>staged := []\<rparr>"

definition toBuffer :: "BufferQueue \<Rightarrow> byte list" where
  "toBuffer q = committed q"

definition clear :: "BufferQueue \<Rightarrow> BufferQueue" where
  "clear q = \<lparr> room = 0, committed = [], staged = [] \<rparr>"

section \<open>The assembly (reflect/Assembly.js and the entities of its pools)\<close>

text \<open>
  Modelled from the spec: the assembly and its pool entities (the reflect classes other
  than FunctionDefinition are not among the sources), with the fields the writer reads. A
  reference to a pooled signature or function is the index the writer emits for it. A
  global variable is zero-initialized when it has no import name. The functions of a
  record export are a JavaScript object: the list of its properties in the order in which
  they were inserted, each a name with the index of the function stored under it, no name
  twice.
\<close>

record GlobalVariable =
  gv_type :: Type
  importName :: "string option"

record FunctionImport =
  imp_importName :: string
  imp_signatures :: "nat list"

record FunctionPointerTable =
  tbl_signature :: nat
  elements :: "nat list"

datatype Export = DefaultExport nat | RecordExport "(string \<times> nat) list" | OtherExport

record Assembly =
  precomputedSize :: nat
  constantsI32 :: "nat list"
  constantsF32 :: "nat list"
  constantsF64 :: "nat list"
  functionSignatures :: "FunctionSignature list"
  functionImports :: "FunctionImport list"
  functionImportSignaturePoolSize :: nat
  globalVariables :: "GlobalVariable list"
  functionDeclarations :: "FunctionDeclaration list"
  functionPointerTables :: "FunctionPointerTable list"
  functionDefinitions :: "FunctionDefinition list"
  export :: Export

text \<open>
  The constants of the module \<^verbatim>\<open>types\<close> and the packing helper \<^verbatim>\<open>util.packWithImm\<close>
  that the writer uses are not among the sources and the spec does not give their values:
  they are parameters of the writer. \<open>typeCode\<close> is the number an element of the
  enumeration \<^verbatim>\<open>types.Type\<close> stands for.
\<close>

record Types =
  MagicNumber :: nat
  typeCode :: "Type \<Rightarrow> nat"
  OpWithImm_ImmMax :: nat
  VarTypeWithImm_OnlyI32 :: nat
  VarType_I32 :: nat
  VarType_F32 :: nat
  VarType_F64 :: nat
  packWithImm :: "nat \<Rightarrow> nat \<Rightarrow> nat"

text \<open>
  Modelled from the spec: the two export discriminators of \<^verbatim>\<open>types.ExportFormat\<close>, which
  the wire format table gives as Default = 0 and Record = 1.
\<close>

definition ExportFormat_Default :: nat where
  "ExportFormat_Default = 0"

definition ExportFormat_Record :: nat where
  "ExportFormat_Record = 1"

text \<open>
  \<^verbatim>\<open>Object.keys\<close> of the language: the names that are array indices (the decimal
  numeral, without a leading zero, of a number below \<open>2^32 - 1\<close>) come first, in ascending
  numeric order, and the other names follow in insertion order. \<open>property\<close> is the lookup
  \<^verbatim>\<open>functions[name]\<close>, which is undefined for a name that the object does not have.
\<close>

definition isDigit :: "char \<Rightarrow> bool" where
  "isDigit c \<longleftrightarrow> 48 \<le> (of_char c :: nat) \<and> (of_char c :: nat) \<le> 57"

definition indexValue :: "string \<Rightarrow> nat" where
  "indexValue s = foldl (\<lambda>n c. 10 * n + (of_char c - 48)) 0 s"

definition isArrayIndex :: "string \<Rightarrow> bool" where
  "isArrayIndex s \<longleftrightarrow>
     s \<noteq> [] \<and> list_all isDigit s \<and> (s = ''0'' \<or> hd s \<noteq> CHR ''0'')
     \<and> indexValue s < 4294967295"

definition Object_keys :: "(string \<times> 'a) list \<Rightarrow> string list" where
  "Object_keys obj =
     sort_key indexValue (filter isArrayIndex (map fst obj))
     @ filter (\<lambda>name. \<not> isArrayIndex name) (map fst obj)"

definition property :: "(string \<times> 'a) list \<Rightarrow> string \<Rightarrow> 'a option" where
  "property obj name = map_of obj name"

section \<open>The module writer (Writer.js)\<close>

datatype State =
    HEADER
  | CONSTANTS_COUNT
  | CONSTANTS_I32
  | CONSTANTS_F32
  | CONSTANTS_F64
  | SIGNATURES_COUNT
  | SIGNATURES
  | FUNCTION_IMPORTS_COUNT
  | FUNCTION_IMPORTS
  | GLOBAL_VARIABLES_COUNT
  | GLOBAL_VARIABLES
  | FUNCTION_DECLARATIONS_COUNT
  | FUNCTION_DECLARATIONS
  | FUNCTION_POINTER_TABLES_COUNT
  | FUNCTION_POINTER_TABLES
  | FUNCTION_POINTER_ELEMENTS
  | FUNCTION_DEFINITIONS
  | EXPORT
  | END
  | ERROR

text \<open>
  The writer's fields (lines 24-77). \<open>astWriter\<close> is the function definition whose body
  writer is active, or \<open>None\<close> for \<^verbatim>\<open>null\<close>. Three fields record what the writer does to
  the stream it extends: \<open>pushed\<close> is every byte handed to \<^verbatim>\<open>this.push\<close> so far, \<open>ended\<close>
  says that \<^verbatim>\<open>push(null)\<close> has ended the stream, and \<open>errors\<close> lists the errors emitted
  with \<^verbatim>\<open>emit("error", err)\<close>. The other events are diagnostic and are left out.
\<close>

record Writer =
  assembly :: Assembly
  state :: State
  bufferQueue :: BufferQueue
  sequence :: nat
  subSequence :: nat
  astWriter :: "FunctionDefinition option"
  lastSwallowedRead :: int
  pushed :: "byte list"
  ended :: bool
  errors :: "error list"

definition new_Writer :: "Assembly \<Rightarrow> Writer" where
  "new_Writer a =
     \<lparr> assembly = a, state = HEADER, bufferQueue = new_BufferQueue, sequence = 0,
       subSequence = 0, astWriter = None, lastSwallowedRead = - 1, pushed = [],
       ended = False, errors = [] \<rparr>"

text \<open>
  A step either returns, with the writer as it leaves it, or throws, with the error and
  the writer as it was when the error was raised.
\<close>

type_synonym outcome = "(error \<times> Writer) + Writer"

text \<open>
  \<^verbatim>\<open>this.bufferQueue. ... .commit()\<close> for a queue \<open>q\<close> that holds the staged batch: the
  queue object is the writer's own, so the batch stays staged in it when the commit throws.
\<close>

definition committing :: "Writer \<Rightarrow> BufferQueue \<Rightarrow> outcome" where
  "committing w q =
     (case commit q of
        Inl e \<Rightarrow> Inl (e, w\<lparr>bufferQueue := q\<rparr>)
      | Inr q' \<Rightarrow> Inr (w\<lparr>bufferQueue := q'\<rparr>))"

text \<open>What follows a call that may throw.\<close>

definition andThen :: "outcome \<Rightarrow> (Writer \<Rightarrow> Writer) \<Rightarrow> outcome" where
  "andThen r f = (case r of Inl x \<Rightarrow> Inl x | Inr w \<Rightarrow> Inr (f w))"

text \<open>
  The loop shared by the steps that emit a pool:
  \<^verbatim>\<open>while (this.sequence < size) { ...write the entry...; commit(); ++this.sequence; }\<close>.
  \<open>entry\<close> stages the writes of one pool entry and may itself throw.
\<close>

function writePool ::
  "('a \<Rightarrow> BufferQueue \<Rightarrow> error + BufferQueue) \<Rightarrow> 'a list \<Rightarrow> Writer \<Rightarrow> outcome" where
  "writePool entry pool w =
     (if sequence w < length pool then
        (case entry (pool ! sequence w) (bufferQueue w) of
           Inl e \<Rightarrow> Inl (e, w)
         | Inr q \<Rightarrow>
             (case committing w q of
                Inl x \<Rightarrow> Inl x
              | Inr w' \<Rightarrow> writePool entry pool (w'\<lparr>sequence := sequence w + 1\<rparr>)))
      else Inr w)"
  by pat_completeness auto
termination
  by (relation "measure (\<lambda>(entry, pool, w). length pool - sequence w)") auto

declare writePool.simps [simp del]

text \<open>The same loop over the elements of one function pointer table, by \<^verbatim>\<open>subSequence\<close>.\<close>

function writeElements :: "nat list \<Rightarrow> Writer \<Rightarrow> outcome" where
  "writeElements els w =
     (if subSequence w < length els then
        (case committing w (writeVarint (els ! subSequence w) (bufferQueue w)) of
           Inl x \<Rightarrow> Inl x
         | Inr w' \<Rightarrow> writeElements els (w'\<lparr>subSequence := subSequence w + 1\<rparr>))
      else Inr w)"
  by pat_completeness auto
termination
  by (relation "measure (\<lambda>(els, w). length els - subSequence w)") auto

declare writeElements.simps [simp del]

text \<open>\<^verbatim>\<open>_writeHeader\<close> (lines 223-230).\<close>

definition writeHeader :: "Types \<Rightarrow> Writer \<Rightarrow> outcome" where
  "writeHeader T w =
     andThen
       (committing w
          (writeUInt32LE (precomputedSize (assembly w))
            (writeUInt32LE (MagicNumber T) (bufferQueue w))))
       (\<lambda>w'. w'\<lparr>state := CONSTANTS_COUNT\<rparr>)"

text \<open>\<^verbatim>\<open>_writeConstantsCount\<close> (lines 232-244).\<close>

definition writeConstantsCount :: "Writer \<Rightarrow> outcome" where
  "writeConstantsCount w =
     andThen
       (committing w
          (writeVarint (length (constantsF64 (assembly w)))
            (writeVarint (length (constantsF32 (assembly w)))
              (writeVarint (length (constantsI32 (assembly w))) (bufferQueue w)))))
       (\<lambda>w'. w'\<lparr>state := CONSTANTS_I32, sequence := 0\<rparr>)"

text \<open>\<^verbatim>\<open>_writeConstantsI32\<close>, \<^verbatim>\<open>_writeConstantsF32\<close>, \<^verbatim>\<open>_writeConstantsF64\<close> (lines 246-286).\<close>

definition writeConstantsI32 :: "Writer \<Rightarrow> outcome" where
  "writeConstantsI32 w =
     andThen (writePool (\<lambda>c q. Inr (writeVarint c q)) (constantsI32 (assembly w)) w)
       (\<lambda>w'. w'\<lparr>state := CONSTANTS_F32, sequence := 0\<rparr>)"

definition writeConstantsF32 :: "Writer \<Rightarrow> outcome" where
  "writeConstantsF32 w =
     andThen (writePool (\<lambda>c q. Inr (writeFloatLE c q)) (constantsF32 (assembly w)) w)
       (\<lambda>w'. w'\<lparr>state := CONSTANTS_F64, sequence := 0\<rparr>)"

definition writeConstantsF64 :: "Writer \<Rightarrow> outcome" where
  "writeConstantsF64 w =
     andThen (writePool (\<lambda>c q. Inr (writeDoubleLE c q)) (constantsF64 (assembly w)) w)
       (\<lambda>w'. w'\<lparr>state := SIGNATURES_COUNT\<rparr>)"

text \<open>\<^verbatim>\<open>_writeSignaturesCount\<close> and \<^verbatim>\<open>_writeSignatures\<close> (lines 288-314).\<close>

definition writeSignaturesCount :: "Writer \<Rightarrow> outcome" where
  "writeSignaturesCount w =
     andThen
       (committing w (writeVarint (length (functionSignatures (assembly w))) (bufferQueue w)))
       (\<lambda>w'. w'\<lparr>state := SIGNATURES, sequence := 0\<rparr>)"

definition writeSignature :: "Types \<Rightarrow> FunctionSignature \<Rightarrow> BufferQueue \<Rightarrow> BufferQueue" where
  "writeSignature T sg q =
     fold (\<lambda>t. writeUInt8 (typeCode T t)) (argumentTypes sg)
       (writeVarint (length (argumentTypes sg)) (writeUInt8 (typeCode T (returnType sg)) q))"

definition writeSignatures :: "Types \<Rightarrow> Writer \<Rightarrow> outcome" where
  "writeSignatures T w =
     andThen (writePool (\<lambda>sg q. Inr (writeSignature T sg q)) (functionSignatures (assembly w)) w)
       (\<lambda>w'. w'\<lparr>state := FUNCTION_IMPORTS_COUNT\<rparr>)"

text \<open>\<^verbatim>\<open>_writeFunctionImportsCount\<close> and \<^verbatim>\<open>_writeFunctionImports\<close> (lines 316-344).\<close>

definition writeFunctionImportsCount :: "Writer \<Rightarrow> outcome" where
  "writeFunctionImportsCount w =
     andThen
       (committing w
          (writeVarint (functionImportSignaturePoolSize (assembly w))
            (writeVarint (length (functionImports (assembly w))) (bufferQueue w))))
       (\<lambda>w'. w'\<lparr>state := FUNCTION_IMPORTS, sequence := 0\<rparr>)"

definition writeFunctionImport :: "FunctionImport \<Rightarrow> BufferQueue \<Rightarrow> BufferQueue" where
  "writeFunctionImport imprt q =
     fold writeVarint (imp_signatures imprt)
       (writeVarint (length (imp_signatures imprt)) (writeCString (imp_importName imprt) q))"

definition writeFunctionImports :: "Writer \<Rightarrow> outcome" where
  "writeFunctionImports w =
     andThen (writePool (\<lambda>i q. Inr (writeFunctionImport i q)) (functionImports (assembly w)) w)
       (\<lambda>w'. w'\<lparr>state := GLOBAL_VARIABLES_COUNT\<rparr>)"

text \<open>
  \<^verbatim>\<open>_writeGlobalVariablesCount\<close> (lines 346-392). Each of the six loops
  \<^verbatim>\<open>while (current < vars.length && vars[current].type === t) { n++; current++; }\<close>
  counts the variables of type \<open>t\<close> that follow index \<open>current\<close> without a break; the
  loops test the type only. Five counts are staged, \<^verbatim>\<open>this.sequence\<close> being set after
  the third, before the assertion; the sixth count and the commit follow it.
\<close>

definition scan :: "GlobalVariable list \<Rightarrow> Type \<Rightarrow> nat \<Rightarrow> nat" where
  "scan vars t current = length (takeWhile (\<lambda>v. gv_type v = t) (drop current vars))"

definition writeGlobalVariablesCount :: "Writer \<Rightarrow> outcome" where
  "writeGlobalVariablesCount w =
     (let vars = globalVariables (assembly w);
          nI32zero = scan vars I32 0;
          nF32zero = scan vars F32 nI32zero;
          nF64zero = scan vars F64 (nI32zero + nF32zero);
          halfway = nI32zero + nF32zero + nF64zero;
          nI32import = scan vars I32 halfway;
          nF32import = scan vars F32 (halfway + nI32import);
          nF64import = scan vars F64 (halfway + nI32import + nF32import);
          current = halfway + nI32import + nF32import + nF64import;
          q = writeVarint nF32import (writeVarint nI32import (writeVarint nF64zero
                (writeVarint nF32zero (writeVarint nI32zero (bufferQueue w)))));
          w1 = w\<lparr>bufferQueue := q, sequence := halfway\<rparr>
      in if current \<noteq> length vars
         then Inl (AssertionError ''illegal order of global variables'', w1)
         else andThen (committing w1 (writeVarint nF64import q))
                (\<lambda>w'. w'\<lparr>state := GLOBAL_VARIABLES\<rparr>))"

text \<open>
  \<^verbatim>\<open>_writeGlobalVariables\<close> (lines 394-406): the import name of every variable from
  \<^verbatim>\<open>this.sequence\<close> on. What \<^verbatim>\<open>writeCString\<close> does with the \<^verbatim>\<open>null\<close> name of a
  zero-initialized variable is not in the sources; the model makes it a type error.
\<close>

definition writeImportName :: "GlobalVariable \<Rightarrow> BufferQueue \<Rightarrow> error + BufferQueue" where
  "writeImportName v q =
     (case importName v of
        None \<Rightarrow> Inl (TypeError ''import name is null'')
      | Some s \<Rightarrow> Inr (writeCString s q))"

definition writeGlobalVariables :: "Writer \<Rightarrow> outcome" where
  "writeGlobalVariables w =
     andThen (writePool writeImportName (globalVariables (assembly w)) w)
       (\<lambda>w'. w'\<lparr>state := FUNCTION_DECLARATIONS_COUNT\<rparr>)"

text \<open>\<^verbatim>\<open>_writeFunctionDeclarationsCount\<close> and \<^verbatim>\<open>_writeFunctionDeclarations\<close> (lines 408-430).\<close>

definition writeFunctionDeclarationsCount :: "Writer \<Rightarrow> outcome" where
  "writeFunctionDeclarationsCount w =
     andThen
       (committing w (writeVarint (length (functionDeclarations (assembly w))) (bufferQueue w)))
       (\<lambda>w'. w'\<lparr>state := FUNCTION_DECLARATIONS, sequence := 0\<rparr>)"

definition writeFunctionDeclarations :: "Writer \<Rightarrow> outcome" where
  "writeFunctionDeclarations w =
     andThen
       (writePool (\<lambda>d q. Inr (writeVarint (sig_index (decl_signature d)) q))
          (functionDeclarations (assembly w)) w)
       (\<lambda>w'. w'\<lparr>state := FUNCTION_POINTER_TABLES_COUNT\<rparr>)"

text \<open>
  \<^verbatim>\<open>_writeFunctionPointerTablesCount\<close>, \<^verbatim>\<open>_writeFunctionPointerTables\<close> and
  \<^verbatim>\<open>_writeFunctionPointerElements\<close> (lines 432-476). The second emits the header of
  table \<^verbatim>\<open>this.sequence\<close> and hands over to the third, which emits that table's elements
  and comes back with the next table index. Reading a table past the pool's end is a
  range error of the assembly's accessor.
\<close>

definition writeFunctionPointerTablesCount :: "Writer \<Rightarrow> outcome" where
  "writeFunctionPointerTablesCount w =
     andThen
       (committing w (writeVarint (length (functionPointerTables (assembly w))) (bufferQueue w)))
       (\<lambda>w'. w'\<lparr>state := FUNCTION_POINTER_TABLES, sequence := 0\<rparr>)"

definition writeFunctionPointerTables :: "Writer \<Rightarrow> outcome" where
  "writeFunctionPointerTables w =
     (if sequence w < length (functionPointerTables (assembly w)) then
        (let table = functionPointerTables (assembly w) ! sequence w in
         andThen
           (committing w
              (writeVarint (length (elements table))
                (writeVarint (tbl_signature table) (bufferQueue w))))
           (\<lambda>w'. w'\<lparr>state := FUNCTION_POINTER_ELEMENTS, subSequence := 0\<rparr>))
      else Inr (w\<lparr>state := FUNCTION_DEFINITIONS, sequence := 0\<rparr>))"

definition writeFunctionPointerElements :: "Writer \<Rightarrow> outcome" where
  "writeFunctionPointerElements w =
     (if sequence w < length (functionPointerTables (assembly w)) then
        andThen
          (writeElements (elements (functionPointerTables (assembly w) ! sequence w)) w)
          (\<lambda>w'. w'\<lparr>state := FUNCTION_POINTER_TABLES, sequence := sequence w' + 1\<rparr>)
      else Inl (RangeError ''index out of bounds'', w))"

text \<open>
  \<^verbatim>\<open>_writeFunctionDefinitions\<close> (lines 478-546). The count of the declared locals by type
  (lines 483-502): arguments are skipped, and a local of any other type than the three
  numeric ones throws.
\<close>

fun countVars :: "LocalVariable list \<Rightarrow> nat \<Rightarrow> nat \<Rightarrow> nat \<Rightarrow> error + nat \<times> nat \<times> nat" where
  "countVars [] nI32Vars nF32Vars nF64Vars = Inr (nI32Vars, nF32Vars, nF64Vars)"
| "countVars (v # vs) nI32Vars nF32Vars nF64Vars =
     (if isArgument v then countVars vs nI32Vars nF32Vars nF64Vars
      else case var_type v of
             I32 \<Rightarrow> countVars vs (nI32Vars + 1) nF32Vars nF64Vars
           | F32 \<Rightarrow> countVars vs nI32Vars (nF32Vars + 1) nF64Vars
           | F64 \<Rightarrow> countVars vs nI32Vars nF32Vars (nF64Vars + 1)
           | Void \<Rightarrow> Inl (Error ''illegal variable type''))"

text \<open>
  The header of the local counts (lines 503-520): one packed byte when there are only I32
  locals and their count fits the immediate, otherwise a byte of type flags, joined by
  bitwise or, and one varint per type that is present.
\<close>

definition writeVarCounts :: "Types \<Rightarrow> nat \<Rightarrow> nat \<Rightarrow> nat \<Rightarrow> BufferQueue \<Rightarrow> BufferQueue" where
  "writeVarCounts T nI32Vars nF32Vars nF64Vars q =
     (if nF32Vars = 0 \<and> nF64Vars = 0 \<and> nI32Vars \<le> OpWithImm_ImmMax T
      then writeUInt8 (packWithImm T (VarTypeWithImm_OnlyI32 T) nI32Vars) q
      else
        (let code0 = (0::nat);
             code1 = (if nI32Vars > 0 then code0 OR VarType_I32 T else code0);
             code2 = (if nF32Vars > 0 then code1 OR VarType_F32 T else code1);
             code3 = (if nF64Vars > 0 then code2 OR VarType_F64 T else code2);
             q0 = writeUInt8 code3 q;
             q1 = (if nI32Vars > 0 then writeVarint nI32Vars q0 else q0);
             q2 = (if nF32Vars > 0 then writeVarint nF32Vars q1 else q1);
             q3 = (if nF64Vars > 0 then writeVarint nF64Vars q2 else q2)
         in q3))"

text \<open>
  The step itself. Its size is the size of the declaration pool; the definition of index
  \<^verbatim>\<open>this.sequence\<close> is read through the assembly's accessor, a range error past the end.
  When a definition is left, its header is committed, a body writer is started on it and
  the step returns \<^verbatim>\<open>true\<close>: the second component of the result.
\<close>

definition writeFunctionDefinitions :: "Types \<Rightarrow> Writer \<Rightarrow> (error \<times> Writer) + (Writer \<times> bool)" where
  "writeFunctionDefinitions T w =
     (if sequence w < length (functionDeclarations (assembly w)) then
        (if sequence w < length (functionDefinitions (assembly w)) then
           (let definition = functionDefinitions (assembly w) ! sequence w in
            case countVars (variables definition) 0 0 0 of
              Inl e \<Rightarrow> Inl (e, w)
            | Inr (nI32Vars, nF32Vars, nF64Vars) \<Rightarrow>
                (case committing w (writeVarCounts T nI32Vars nF32Vars nF64Vars (bufferQueue w)) of
                   Inl x \<Rightarrow> Inl x
                 | Inr w' \<Rightarrow> Inr (w'\<lparr>astWriter := Some definition\<rparr>, True)))
         else Inl (RangeError ''index out of bounds'', w))
      else Inr (w\<lparr>state := EXPORT\<rparr>, False))"

text \<open>\<^verbatim>\<open>_writeExport\<close> (lines 548-569).\<close>

fun writeExportPairs ::
  "(string \<times> nat) list \<Rightarrow> string list \<Rightarrow> BufferQueue \<Rightarrow> (error \<times> BufferQueue) + BufferQueue" where
  "writeExportPairs functions [] q = Inr q"
| "writeExportPairs functions (name # names) q =
     (case property functions name of
        None \<Rightarrow> Inl (TypeError ''Cannot read property index of undefined'', writeCString name q)
      | Some f \<Rightarrow> writeExportPairs functions names (writeVarint f (writeCString name q)))"

definition writeExport :: "Writer \<Rightarrow> outcome" where
  "writeExport w =
     (case export (assembly w) of
        DefaultExport f \<Rightarrow>
          andThen
            (committing w (writeVarint f (writeUInt8 ExportFormat_Default (bufferQueue w))))
            (\<lambda>w'. w'\<lparr>state := END\<rparr>)
      | RecordExport functions \<Rightarrow>
          (case writeExportPairs functions (Object_keys functions)
                  (writeVarint (length (Object_keys functions))
                    (writeUInt8 ExportFormat_Record (bufferQueue w))) of
             Inl (e, q) \<Rightarrow> Inl (e, w\<lparr>bufferQueue := q\<rparr>)
           | Inr q \<Rightarrow> andThen (committing w q) (\<lambda>w'. w'\<lparr>state := END\<rparr>))
      | OtherExport \<Rightarrow> Inl (Error ''illegal export'', w))"

text \<open>
  One pass through the body of the loop of \<^verbatim>\<open>_process\<close> up to the end of the \<^verbatim>\<open>try\<close>
  block (lines 140-204): the step of the current state. The second component of a normal
  result says that \<^verbatim>\<open>_process\<close> returns: after the step of FUNCTION_DEFINITIONS has
  started a body writer, and in the states END and ERROR, where the committed bytes are
  pushed, the queue is cleared and the stream is ended.
\<close>

definition returning :: "outcome \<Rightarrow> (error \<times> Writer) + (Writer \<times> bool)" where
  "returning r = (case r of Inl x \<Rightarrow> Inl x | Inr w \<Rightarrow> Inr (w, False))"

definition finish :: "Writer \<Rightarrow> Writer" where
  "finish w =
     w\<lparr>pushed := pushed w @ toBuffer (bufferQueue w),
       bufferQueue := clear (bufferQueue w),
       ended := True\<rparr>"

definition runStep :: "Types \<Rightarrow> Writer \<Rightarrow> (error \<times> Writer) + (Writer \<times> bool)" where
  "runStep T w =
     (case state w of
        HEADER \<Rightarrow> returning (writeHeader T w)
      | CONSTANTS_COUNT \<Rightarrow> returning (writeConstantsCount w)
      | CONSTANTS_I32 \<Rightarrow> returning (writeConstantsI32 w)
      | CONSTANTS_F32 \<Rightarrow> returning (writeConstantsF32 w)
      | CONSTANTS_F64 \<Rightarrow> returning (writeConstantsF64 w)
      | SIGNATURES_COUNT \<Rightarrow> returning (writeSignaturesCount w)
      | SIGNATURES \<Rightarrow> returning (writeSignatures T w)
      | FUNCTION_IMPORTS_COUNT \<Rightarrow> returning (writeFunctionImportsCount w)
      | FUNCTION_IMPORTS \<Rightarrow> returning (writeFunctionImports w)
      | GLOBAL_VARIABLES_COUNT \<Rightarrow> returning (writeGlobalVariablesCount w)
      | GLOBAL_VARIABLES \<Rightarrow> returning (writeGlobalVariables w)
      | FUNCTION_DECLARATIONS_COUNT \<Rightarrow> returning (writeFunctionDeclarationsCount w)
      | FUNCTION_DECLARATIONS \<Rightarrow> returning (writeFunctionDeclarations w)
      | FUNCTION_POINTER_TABLES_COUNT \<Rightarrow> returning (writeFunctionPointerTablesCount w)
      | FUNCTION_POINTER_TABLES \<Rightarrow> returning (writeFunctionPointerTables w)
      | FUNCTION_POINTER_ELEMENTS \<Rightarrow> returning (writeFunctionPointerElements w)
      | FUNCTION_DEFINITIONS \<Rightarrow> writeFunctionDefinitions T w
      | EXPORT \<Rightarrow> returning (writeExport w)
      | END \<Rightarrow> Inr (finish w, True)
      | ERROR \<Rightarrow> Inr (finish w, True))"

text \<open>
  The place of a state's section in the fixed order, counted from the end; the table
  headers and the table elements form one section.
\<close>

fun rank :: "State \<Rightarrow> nat" where
  "rank HEADER = 18"
| "rank CONSTANTS_COUNT = 17"
| "rank CONSTANTS_I32 = 16"
| "rank CONSTANTS_F32 = 15"
| "rank CONSTANTS_F64 = 14"
| "rank SIGNATURES_COUNT = 13"
| "rank SIGNATURES = 12"
| "rank FUNCTION_IMPORTS_COUNT = 11"
| "rank FUNCTION_IMPORTS = 10"
| "rank GLOBAL_VARIABLES_COUNT = 9"
| "rank GLOBAL_VARIABLES = 8"
| "rank FUNCTION_DECLARATIONS_COUNT = 7"
| "rank FUNCTION_DECLARATIONS = 6"
| "rank FUNCTION_POINTER_TABLES_COUNT = 5"
| "rank FUNCTION_POINTER_TABLES = 4"
| "rank FUNCTION_POINTER_ELEMENTS = 4"
| "rank FUNCTION_DEFINITIONS = 3"
| "rank EXPORT = 2"
| "rank END = 1"
| "rank ERROR = 0"

text \<open>What is left of the loop over the function pointer tables.\<close>

definition tablesLeft :: "Writer \<Rightarrow> nat" where
  "tablesLeft w =
     (case state w of
        FUNCTION_POINTER_TABLES \<Rightarrow> 2 * (length (functionPointerTables (assembly w)) - sequence w) + 1
      | FUNCTION_POINTER_ELEMENTS \<Rightarrow> 2 * (length (functionPointerTables (assembly w)) - sequence w)
      | _ \<Rightarrow> 0)"

subsection \<open>What the steps leave unchanged\<close>

text \<open>The fields that no step writes.\<close>

definition untouched :: "Writer \<Rightarrow> Writer \<Rightarrow> bool" where
  "untouched w w' \<longleftrightarrow>
     assembly w' = assembly w \<and> lastSwallowedRead w' = lastSwallowedRead w
     \<and> pushed w' = pushed w \<and> ended w' = ended w \<and> errors w' = errors w"

lemma untouched_refl [simp]: "untouched w w"
  by (simp add: untouched_def)

lemma untouched_trans: "untouched w w1 \<Longrightarrow> untouched w1 w2 \<Longrightarrow> untouched w w2"
  by (simp add: untouched_def)

lemma untouched_updates [simp]:
  "untouched w (w'\<lparr>bufferQueue := q\<rparr>) = untouched w w'"
  "untouched w (w'\<lparr>sequence := n\<rparr>) = untouched w w'"
  "untouched w (w'\<lparr>subSequence := n\<rparr>) = untouched w w'"
  "untouched w (w'\<lparr>state := s\<rparr>) = untouched w w'"
  "untouched w (w'\<lparr>astWriter := a\<rparr>) = untouched w w'"
  by (simp_all add: untouched_def)

lemma committing_Inr:
  "committing w q = Inr w' \<Longrightarrow>
     w' = w\<lparr>bufferQueue := q\<lparr>committed := committed q @ staged q, staged := []\<rparr>\<rparr>
     \<and> length (committed q) + length (staged q) \<le> room q"
  by (auto simp: committing_def commit_def split: sum.splits if_splits)

lemma committing_Inl:
  "committing w q = Inl (e, w') \<Longrightarrow>
     e = E_MORE \<and> w' = w\<lparr>bufferQueue := q\<rparr> \<and> room q < length (committed q) + length (staged q)"
  by (auto simp: committing_def commit_def split: sum.splits if_splits)

lemma writeExportPairs_Inr:
  "writeExportPairs functions names q = Inr q' \<Longrightarrow>
     room q' = room q \<and> committed q' = committed q"
  by (induction names arbitrary: q)
     (auto simp: writeVarint_def writeCString_def split: option.splits)

lemma writeExportPairs_Inl:
  "writeExportPairs functions names q = Inl (e, q') \<Longrightarrow>
     e \<noteq> E_MORE \<and> room q' = room q \<and> committed q' = committed q"
  by (induction names arbitrary: q)
     (auto simp: writeVarint_def writeCString_def split: option.splits)

lemma writePool_frame:
  "writePool entry pool w = Inr w' \<or> writePool entry pool w = Inl (e, w') \<Longrightarrow>
     untouched w w' \<and> state w' = state w \<and> subSequence w' = subSequence w
     \<and> astWriter w' = astWriter w \<and> sequence w \<le> sequence w'"
proof (induction entry pool w rule: writePool.induct)
  case (1 entry pool w)
  show ?case
  proof (cases "sequence w < length pool")
    case False
    with "1.prems" show ?thesis by (auto simp add: writePool.simps)
  next
    case True
    show ?thesis
    proof (cases "entry (pool ! sequence w) (bufferQueue w)")
      case (Inl x)
      with "1.prems" True show ?thesis by (auto simp add: writePool.simps)
    next
      case (Inr q)
      show ?thesis
      proof (cases "committing w q")
        case (Inl x)
        with "1.prems" True Inr show ?thesis
          by (cases x) (auto simp: writePool.simps dest: committing_Inl)
      next
        case c: (Inr w1)
        from "1.prems" True Inr c have
          "writePool entry pool (w1\<lparr>sequence := sequence w + 1\<rparr>) = Inr w'
           \<or> writePool entry pool (w1\<lparr>sequence := sequence w + 1\<rparr>) = Inl (e, w')"
          by (simp add: writePool.simps)
        from "1.IH"[OF True Inr c this] committing_Inr[OF c] show ?thesis
          by (auto simp: untouched_def)
      qed
    qed
  qed
qed

lemma writeElements_frame:
  "writeElements els w = Inr w' \<or> writeElements els w = Inl (e, w') \<Longrightarrow>
     untouched w w' \<and> state w' = state w \<and> sequence w' = sequence w
     \<and> astWriter w' = astWriter w \<and> subSequence w \<le> subSequence w'"
proof (induction els w rule: writeElements.induct)
  case (1 els w)
  show ?case
  proof (cases "subSequence w < length els")
    case False
    with "1.prems" show ?thesis by (auto simp add: writeElements.simps)
  next
    case True
    show ?thesis
    proof (cases "committing w (writeVarint (els ! subSequence w) (bufferQueue w))")
      case (Inl x)
      with "1.prems" True show ?thesis
        by (cases x) (auto simp: writeElements.simps dest: committing_Inl)
    next
      case c: (Inr w1)
      from "1.prems" True c have
        "writeElements els (w1\<lparr>subSequence := subSequence w + 1\<rparr>) = Inr w'
         \<or> writeElements els (w1\<lparr>subSequence := subSequence w + 1\<rparr>) = Inl (e, w')"
        by (simp add: writeElements.simps)
      from "1.IH"[OF True c this] committing_Inr[OF c] show ?thesis
        by (auto simp: untouched_def)
    qed
  qed
qed

lemma andThen_Inr: "andThen r f = Inr w' \<longleftrightarrow> (\<exists>w1. r = Inr w1 \<and> w' = f w1)"
  by (auto simp: andThen_def split: sum.splits)

lemma andThen_Inl: "andThen r f = Inl x \<longleftrightarrow> r = Inl x"
  by (auto simp: andThen_def split: sum.splits)

lemma returning_Inr: "returning r = Inr (w', b) \<longleftrightarrow> r = Inr w' \<and> \<not> b"
  by (auto simp: returning_def split: sum.splits)

lemma returning_Inl: "returning r = Inl x \<longleftrightarrow> r = Inl x"
  by (auto simp: returning_def split: sum.splits)

lemmas step_defs =
  writeHeader_def writeConstantsCount_def writeConstantsI32_def writeConstantsF32_def
  writeConstantsF64_def writeSignaturesCount_def writeSignatures_def
  writeFunctionImportsCount_def writeFunctionImports_def writeGlobalVariablesCount_def
  writeGlobalVariables_def writeFunctionDeclarationsCount_def writeFunctionDeclarations_def
  writeFunctionPointerTablesCount_def writeFunctionPointerTables_def
  writeFunctionPointerElements_def writeFunctionDefinitions_def writeExport_def

text \<open>The states a step can leave behind when it returns and the loop goes on.\<close>

fun follows :: "State \<Rightarrow> State list" where
  "follows HEADER = [CONSTANTS_COUNT]"
| "follows CONSTANTS_COUNT = [CONSTANTS_I32]"
| "follows CONSTANTS_I32 = [CONSTANTS_F32]"
| "follows CONSTANTS_F32 = [CONSTANTS_F64]"
| "follows CONSTANTS_F64 = [SIGNATURES_COUNT]"
| "follows SIGNATURES_COUNT = [SIGNATURES]"
| "follows SIGNATURES = [FUNCTION_IMPORTS_COUNT]"
| "follows FUNCTION_IMPORTS_COUNT = [FUNCTION_IMPORTS]"
| "follows FUNCTION_IMPORTS = [GLOBAL_VARIABLES_COUNT]"
| "follows GLOBAL_VARIABLES_COUNT = [GLOBAL_VARIABLES]"
| "follows GLOBAL_VARIABLES = [FUNCTION_DECLARATIONS_COUNT]"
| "follows FUNCTION_DECLARATIONS_COUNT = [FUNCTION_DECLARATIONS]"
| "follows FUNCTION_DECLARATIONS = [FUNCTION_POINTER_TABLES_COUNT]"
| "follows FUNCTION_POINTER_TABLES_COUNT = [FUNCTION_POINTER_TABLES]"
| "follows FUNCTION_POINTER_TABLES = [FUNCTION_POINTER_ELEMENTS, FUNCTION_DEFINITIONS]"
| "follows FUNCTION_POINTER_ELEMENTS = [FUNCTION_POINTER_TABLES]"
| "follows FUNCTION_DEFINITIONS = [EXPORT]"
| "follows EXPORT = [END]"
| "follows END = []"
| "follows ERROR = []"

lemma runStep_returns:
  assumes "runStep T w = Inr (w', False)"
  shows "untouched w w' \<and> astWriter w' = astWriter w \<and> state w' \<in> set (follows (state w))
    \<and> (state w = FUNCTION_POINTER_TABLES \<and> state w' = FUNCTION_POINTER_ELEMENTS \<longrightarrow>
          sequence w' = sequence w \<and> sequence w < length (functionPointerTables (assembly w)))
    \<and> (state w = FUNCTION_POINTER_ELEMENTS \<longrightarrow>
          sequence w' = sequence w + 1 \<and> sequence w < length (functionPointerTables (assembly w)))"
  using assms
  by (cases "state w")
     (auto simp: runStep_def returning_Inr andThen_Inr step_defs Let_def
           split: if_splits sum.splits prod.splits Export.splits
           dest!: committing_Inr
           dest: writePool_frame[OF disjI1] writeElements_frame[OF disjI1])

lemma runStep_throws:
  assumes "runStep T w = Inl (e, w')"
  shows "untouched w w' \<and> astWriter w' = astWriter w \<and> state w' = state w
    \<and> state w \<noteq> END \<and> state w \<noteq> ERROR"
  using assms
  by (cases "state w")
     (auto simp: runStep_def returning_Inl andThen_Inl step_defs Let_def
           split: if_splits sum.splits prod.splits Export.splits
           dest!: committing_Inl
           dest: writePool_frame[OF disjI2] writeElements_frame[OF disjI2])

lemma runStep_decreases:
  assumes "runStep T w = Inr (w', False)"
  shows "((rank (state w'), tablesLeft w'), (rank (state w), tablesLeft w)) \<in> less_than <*lex*> less_than"
  using runStep_returns[OF assms]
  by (cases "state w") (auto simp: tablesLeft_def untouched_def)

subsection \<open>The loop of \<^verbatim>\<open>_process\<close> and the events that drive the writer\<close>

text \<open>
  The loop of \<^verbatim>\<open>_process\<close> (lines 137-220). A step that throws \<open>E_MORE\<close> ends the call:
  the queue is reset, its committed bytes are pushed, and the queue is cleared when that
  buffer is not empty. Any other error is emitted, the state becomes ERROR and the loop
  goes on. The loop ends for every writer: the sections only move forward.
\<close>

function process_loop :: "Types \<Rightarrow> Writer \<Rightarrow> Writer" where
  "process_loop T w =
     (case runStep T w of
        Inr (w', returned) \<Rightarrow> if returned then w' else process_loop T w'
      | Inl (err, w') \<Rightarrow>
          if err = E_MORE then
            (let q = reset (bufferQueue w'); buf = toBuffer q
             in w'\<lparr>pushed := pushed w' @ buf,
                   bufferQueue := (if length buf > 0 then clear q else q)\<rparr>)
          else process_loop T (w'\<lparr>errors := errors w' @ [err], state := ERROR\<rparr>))"
  by pat_completeness auto
termination
  apply (relation "inv_image (less_than <*lex*> less_than) (\<lambda>(T, w). (rank (state w), tablesLeft w))")
  apply blast
  subgoal for T w a x y
    using runStep_throws[of T w x y] by (cases "state w") (auto simp: tablesLeft_def)
  subgoal for T w b x y
    using runStep_decreases[of T w x] by simp
  done

declare process_loop.simps [simp del]

text \<open>\<^verbatim>\<open>_process\<close> (lines 134-221) and \<^verbatim>\<open>_read\<close> (lines 123-132).\<close>

definition process :: "Types \<Rightarrow> Writer \<Rightarrow> Writer" where
  "process T w = (if state w = END \<or> state w = ERROR then w else process_loop T w)"

definition read :: "Types \<Rightarrow> int \<Rightarrow> Writer \<Rightarrow> Writer" where
  "read T n w =
     (if astWriter w \<noteq> None then w\<lparr>lastSwallowedRead := n\<rparr>
      else if n \<le> 0 then w
      else process T (w\<lparr>bufferQueue := push (nat n) (bufferQueue w)\<rparr>))"

text \<open>
  The three listeners that \<^verbatim>\<open>_writeFunctionDefinitions\<close> puts on the body writer (lines
  524-538). The body writer itself (ast/Writer.js) is not among the sources: its events
  are inputs of the model. After "end" the writer reads again with the last size it had
  swallowed.
\<close>

definition astEnd :: "Types \<Rightarrow> Writer \<Rightarrow> Writer" where
  "astEnd T w =
     (let w' = w\<lparr>astWriter := None, sequence := sequence w + 1\<rparr>
      in read T (lastSwallowedRead w') w')"

definition astData :: "byte list \<Rightarrow> Writer \<Rightarrow> Writer" where
  "astData chunk w = w\<lparr>pushed := pushed w @ chunk\<rparr>"

definition astError :: "error \<Rightarrow> Writer \<Rightarrow> Writer" where
  "astError err w = w\<lparr>astWriter := None, state := ERROR, errors := errors w @ [err]\<rparr>"

section \<open>Properties of function definitions\<close>

lemma length_variables:
  "length (variables (new_FunctionDefinition decl i f d bo bl)) =
     length (argumentTypes (decl_signature decl)) + i + f + d"
  by (simp add: new_FunctionDefinition_def)

text \<open>
  Claim C10. A byteOffset argument equal to 0 is stored as -1, and a byteLength argument
  equal to 0, or omitted, is stored as -1; the only other falsy value of the model, an
  omitted byteOffset, is stored as -1 as well.
\<close>

theorem constructor_falsy_gives_sentinel:
  "byteOffset (new_FunctionDefinition decl i f d (Some 0) bl) = - 1
   \<and> byteLength (new_FunctionDefinition decl i f d bo (Some 0)) = - 1
   \<and> byteLength (new_FunctionDefinition decl i f d bo None) = - 1
   \<and> byteOffset (new_FunctionDefinition decl i f d None bl) = - 1"
  by (simp add: new_FunctionDefinition_def orMinusOne_def)

text \<open>
  Claim C4. For a function definition built with \<open>a\<close> arguments, \<open>i\<close> I32 locals, \<open>f\<close>
  F32 locals and \<open>d\<close> F64 locals, \<open>getVariable k\<close> returns the argument variable of the
  \<open>k\<close>-th argument type when \<open>k < a\<close>, an I32 local when \<open>a \<le> k < a + i\<close>, an F32 local
  when \<open>a + i \<le> k < a + i + f\<close>, an F64 local when \<open>a + i + f \<le> k < a + i + f + d\<close>, and
  fails with a range error when \<open>k \<ge> a + i + f + d\<close>.
\<close>

theorem getVariable_by_position:
  "(k < length (argumentTypes (decl_signature decl)) \<longrightarrow>
      getVariable (new_FunctionDefinition decl i f d bo bl) (int k)
        = Inr \<lparr> var_type = argumentTypes (decl_signature decl) ! k, isArgument = True \<rparr>)
   \<and> (length (argumentTypes (decl_signature decl)) \<le> k
        \<and> k < length (argumentTypes (decl_signature decl)) + i \<longrightarrow>
      getVariable (new_FunctionDefinition decl i f d bo bl) (int k)
        = Inr \<lparr> var_type = I32, isArgument = False \<rparr>)
   \<and> (length (argumentTypes (decl_signature decl)) + i \<le> k
        \<and> k < length (argumentTypes (decl_signature decl)) + i + f \<longrightarrow>
      getVariable (new_FunctionDefinition decl i f d bo bl) (int k)
        = Inr \<lparr> var_type = F32, isArgument = False \<rparr>)
   \<and> (length (argumentTypes (decl_signature decl)) + i + f \<le> k
        \<and> k < length (argumentTypes (decl_signature decl)) + i + f + d \<longrightarrow>
      getVariable (new_FunctionDefinition decl i f d bo bl) (int k)
        = Inr \<lparr> var_type = F64, isArgument = False \<rparr>)
   \<and> (length (argumentTypes (decl_signature decl)) + i + f + d \<le> k \<longrightarrow>
      (\<exists>m. getVariable (new_FunctionDefinition decl i f d bo bl) (int k) = Inl (RangeError m)))"
proof -
  let ?a = "length (argumentTypes (decl_signature decl))"
  let ?fd = "new_FunctionDefinition decl i f d bo bl"
  have len: "length (variables ?fd) = ?a + i + f + d"
    by (rule length_variables)
  have inr: "getVariable ?fd (int k) = Inr (variables ?fd ! k)" if "k < ?a + i + f + d"
    using that len by (simp add: getVariable_def assertInteger_def)
  have vars: "variables ?fd =
      map (\<lambda>t. \<lparr> var_type = t, isArgument = True \<rparr>) (argumentTypes (decl_signature decl))
      @ replicate i \<lparr> var_type = I32, isArgument = False \<rparr>
      @ replicate f \<lparr> var_type = F32, isArgument = False \<rparr>
      @ replicate d \<lparr> var_type = F64, isArgument = False \<rparr>"
    by (simp add: new_FunctionDefinition_def)
  have c1: "variables ?fd ! k = \<lparr> var_type = argumentTypes (decl_signature decl) ! k, isArgument = True \<rparr>"
    if "k < ?a" using that by (simp add: vars nth_append)
  have c2: "variables ?fd ! k = \<lparr> var_type = I32, isArgument = False \<rparr>"
    if "?a \<le> k" "k < ?a + i" using that by (simp add: vars nth_append)
  have c3: "variables ?fd ! k = \<lparr> var_type = F32, isArgument = False \<rparr>"
    if "?a + i \<le> k" "k < ?a + i + f" using that by (auto simp add: vars nth_append)
  have c4: "variables ?fd ! k = \<lparr> var_type = F64, isArgument = False \<rparr>"
    if "?a + i + f \<le> k" "k < ?a + i + f + d" using that by (auto simp add: vars nth_append)
  have c5: "\<exists>m. getVariable ?fd (int k) = Inl (RangeError m)" if "?a + i + f + d \<le> k"
    using that len by (simp add: getVariable_def assertInteger_def)
  show ?thesis
    using inr c1 c2 c3 c4 c5 by auto
qed

text \<open>A declaration with two arguments, for the concrete cases.\<close>

definition sampleDeclaration :: FunctionDeclaration where
  "sampleDeclaration =
     \<lparr> decl_signature = \<lparr> sig_index = 0, returnType = I32, argumentTypes = [F64, F32] \<rparr>,
       decl_index = 0 \<rparr>"

theorem getVariable_by_position_witness:
  "getVariable (new_FunctionDefinition sampleDeclaration 1 1 1 None None) 1
     = Inr \<lparr> var_type = F32, isArgument = True \<rparr>
   \<and> getVariable (new_FunctionDefinition sampleDeclaration 1 1 1 None None) 2
     = Inr \<lparr> var_type = I32, isArgument = False \<rparr>
   \<and> getVariable (new_FunctionDefinition sampleDeclaration 1 1 1 None None) 3
     = Inr \<lparr> var_type = F32, isArgument = False \<rparr>
   \<and> getVariable (new_FunctionDefinition sampleDeclaration 1 1 1 None None) 4
     = Inr \<lparr> var_type = F64, isArgument = False \<rparr>
   \<and> (\<exists>m. getVariable (new_FunctionDefinition sampleDeclaration 1 1 1 None None) 5
     = Inl (RangeError m))"
  using getVariable_by_position [of 1 sampleDeclaration 1 1 1 None None]
        getVariable_by_position [of 2 sampleDeclaration 1 1 1 None None]
        getVariable_by_position [of 3 sampleDeclaration 1 1 1 None None]
        getVariable_by_position [of 4 sampleDeclaration 1 1 1 None None]
        getVariable_by_position [of 5 sampleDeclaration 1 1 1 None None]
  by (simp add: sampleDeclaration_def)

section \<open>Properties of the Store behavior\<close>

text \<open>
  The claim's own reading of when a Store node passes validation: none of its three
  failure cases applies (the operand count is 2, operand 0 is an I32 expression, and
  operand 1 is not an expression of another type than the heap type).
\<close>

definition claimedStoreAccepted :: "Type \<Rightarrow> store \<Rightarrow> addr \<Rightarrow> bool" where
  "claimedStoreAccepted heapType h stmt \<longleftrightarrow>
     length (operands (h stmt)) = 2
     \<and> isExprI32 h (operands (h stmt) ! 0)
     \<and> \<not> (isBaseExpr h (operands (h stmt) ! 1)
            \<and> exprType h (operands (h stmt) ! 1) \<noteq> Some heapType)"

text \<open>
  Concrete stores: node 0 is a Store statement with the operands 1 and 2, whose classes are
  given; every other address holds a statement without operands.
\<close>

definition leaf :: "NodeClass \<Rightarrow> BaseStmt" where
  "leaf c = \<lparr> node_class = c, code = 0, operands = [] \<rparr>"

definition storeOf :: "NodeClass \<Rightarrow> NodeClass \<Rightarrow> store" where
  "storeOf c1 c2 =
     (\<lambda>a. leaf Stmt)
       (0 := \<lparr> node_class = Stmt, code = 1, operands = [Node 1, Node 2] \<rparr>,
        1 := leaf c1, 2 := leaf c2)"

definition sampleNames :: "Type \<Rightarrow> string" where
  "sampleNames t = (case t of I32 \<Rightarrow> ''int'' | F32 \<Rightarrow> ''float'' | F64 \<Rightarrow> ''double'' | Void \<Rightarrow> ''void'')"

text \<open>
  Claim C8, as stated, fails: a Store node whose operand 0 is an I32 expression and whose
  operand 1 is a statement, not an expression, is in none of the claim's three failure
  cases, yet validation fails on it.
\<close>

theorem store_value_statement_counterexample:
  "claimedStoreAccepted F64 (storeOf (Expr I32) Stmt) 0
   \<and> StoreBehavior_validate sampleNames F64 (storeOf (Expr I32) Stmt) 0
       = Inl (AssertionError ''Store value (operand 1) must be an expression'')"
  by (simp add: claimedStoreAccepted_def StoreBehavior_validate_def storeOf_def leaf_def
        isExprI32_def isBaseExpr_def exprType_def)

text \<open>
  Claim C8, amended. Validation of a Store node fails when the operand count is not
  exactly 2; otherwise it fails with an error naming the heap index when operand 0 is not
  an I32 expression; otherwise it fails when operand 1 is not an expression; otherwise it
  fails with an error naming the expected heap type when the result type of operand 1
  differs from the behavior's heap type; and it succeeds otherwise.
\<close>

theorem store_validate_cases:
  "(length (operands (h stmt)) \<noteq> 2 \<longrightarrow>
      StoreBehavior_validate names heapType h stmt
        = Inl (AssertionError ''Store requires exactly 2 operands''))
   \<and> (length (operands (h stmt)) = 2 \<and> \<not> isExprI32 h (operands (h stmt) ! 0) \<longrightarrow>
      StoreBehavior_validate names heapType h stmt
        = Inl (AssertionError ''Store heap index (operand 0) must be an I32 expression''))
   \<and> (length (operands (h stmt)) = 2 \<and> isExprI32 h (operands (h stmt) ! 0)
        \<and> \<not> isBaseExpr h (operands (h stmt) ! 1) \<longrightarrow>
      StoreBehavior_validate names heapType h stmt
        = Inl (AssertionError ''Store value (operand 1) must be an expression''))
   \<and> (length (operands (h stmt)) = 2 \<and> isExprI32 h (operands (h stmt) ! 0)
        \<and> isBaseExpr h (operands (h stmt) ! 1)
        \<and> exprType h (operands (h stmt) ! 1) \<noteq> Some heapType \<longrightarrow>
      StoreBehavior_validate names heapType h stmt
        = Inl (AssertionError (''Store value (operand 1) expression must be '' @ names heapType)))
   \<and> (length (operands (h stmt)) = 2 \<and> isExprI32 h (operands (h stmt) ! 0)
        \<and> exprType h (operands (h stmt) ! 1) = Some heapType \<longrightarrow>
      StoreBehavior_validate names heapType h stmt = Inr ())"
  by (auto simp: StoreBehavior_validate_def isBaseExpr_def exprType_def
           split: operand.splits NodeClass.splits)

theorem store_validate_cases_witness:
  "StoreBehavior_validate sampleNames F64
      ((storeOf (Expr I32) (Expr F64))(0 := leaf Stmt)) 0
     = Inl (AssertionError ''Store requires exactly 2 operands'')
   \<and> StoreBehavior_validate sampleNames F64 (storeOf (Expr F32) (Expr F64)) 0
     = Inl (AssertionError ''Store heap index (operand 0) must be an I32 expression'')
   \<and> StoreBehavior_validate sampleNames F64 (storeOf (Expr I32) Stmt) 0
     = Inl (AssertionError ''Store value (operand 1) must be an expression'')
   \<and> StoreBehavior_validate sampleNames F64 (storeOf (Expr I32) (Expr F32)) 0
     = Inl (AssertionError ''Store value (operand 1) expression must be double'')
   \<and> StoreBehavior_validate sampleNames F64 (storeOf (Expr I32) (Expr F64)) 0 = Inr ()"
  using store_validate_cases [of "(storeOf (Expr I32) (Expr F64))(0 := leaf Stmt)" 0 sampleNames F64]
        store_validate_cases [of "storeOf (Expr F32) (Expr F64)" 0 sampleNames F64]
        store_validate_cases [of "storeOf (Expr I32) Stmt" 0 sampleNames F64]
        store_validate_cases [of "storeOf (Expr I32) (Expr F32)" 0 sampleNames F64]
        store_validate_cases [of "storeOf (Expr I32) (Expr F64)" 0 sampleNames F64]
  by (simp add: storeOf_def leaf_def isExprI32_def isBaseExpr_def exprType_def sampleNames_def)

section \<open>Properties of the module writer\<close>

subsection \<open>Commits and the export step\<close>

lemmas queue_defs = writeUInt8_def writeUInt32LE_def writeVarint_def writeFloatLE_def
  writeDoubleLE_def writeCString_def

lemma committing_fits:
  "length (committed q) + length (staged q) \<le> room q \<Longrightarrow>
     committing w q = Inr (w\<lparr>bufferQueue := q\<lparr>committed := committed q @ staged q, staged := []\<rparr>\<rparr>)"
  by (simp add: committing_def commit_def)

lemma committing_short:
  "room q < length (committed q) + length (staged q) \<Longrightarrow>
     committing w q = Inl (E_MORE, w\<lparr>bufferQueue := q\<rparr>)"
  by (simp add: committing_def commit_def)

lemma process_loop_fatal:
  assumes "runStep T w = Inl (e, w')" and "e \<noteq> E_MORE"
  shows "process_loop T w = finish (w'\<lparr>errors := errors w' @ [e], state := ERROR\<rparr>)"
proof -
  have "process_loop T w = process_loop T (w'\<lparr>errors := errors w' @ [e], state := ERROR\<rparr>)"
    using assms by (subst process_loop.simps) simp
  also have "\<dots> = finish (w'\<lparr>errors := errors w' @ [e], state := ERROR\<rparr>)"
    by (subst process_loop.simps) (simp add: runStep_def)
  finally show ?thesis .
qed

text \<open>
  The bytes of one pair of a record export, and the record export as the claim words it:
  the pairs in insertion order.
\<close>

definition pairBytes :: "(string \<times> nat) list \<Rightarrow> string \<Rightarrow> byte list" where
  "pairBytes functions name =
     (case property functions name of
        Some f \<Rightarrow> cstring name @ varint f
      | None \<Rightarrow> cstring name)"

definition claimedRecordBytes :: "(string \<times> nat) list \<Rightarrow> byte list" where
  "claimedRecordBytes functions =
     1 # varint (length functions)
       @ concat (map (\<lambda>p. cstring (fst p) @ varint (snd p)) functions)"

lemma set_Object_keys: "set (Object_keys functions) = fst ` set functions"
  by (auto simp: Object_keys_def)

lemma length_Object_keys: "length (Object_keys functions) = length functions"
  using sum_length_filter_compl[of isArrayIndex "map fst functions"]
  by (simp add: Object_keys_def)

lemma property_Object_keys:
  "name \<in> set (Object_keys functions) \<Longrightarrow> property functions name \<noteq> None"
  by (simp add: set_Object_keys property_def map_of_eq_None_iff)

lemma writeExportPairs_bytes:
  "\<forall>name\<in>set names. property functions name \<noteq> None \<Longrightarrow>
     writeExportPairs functions names q
       = Inr (q\<lparr>staged := staged q @ concat (map (pairBytes functions) names)\<rparr>)"
  by (induction names arbitrary: q) (auto simp: pairBytes_def queue_defs)

lemma Object_keys_insertion:
  "\<forall>name\<in>set (map fst functions). \<not> isArrayIndex name \<Longrightarrow>
     Object_keys functions = map fst functions"
  by (simp add: Object_keys_def filter_empty_conv filter_id_conv)

lemma pairBytes_insertion:
  "distinct (map fst functions) \<Longrightarrow>
     map (pairBytes functions) (map fst functions)
       = map (\<lambda>p. cstring (fst p) @ varint (snd p)) functions"
  by (auto simp: pairBytes_def property_def)

text \<open>
  Concrete inputs for the worked cases: some values for the constants of \<^verbatim>\<open>types\<close>, an
  assembly whose pools are all empty, and a writer placed in a given state with 64 bytes
  of room.
\<close>

definition sampleTypes :: Types where
  "sampleTypes =
     \<lparr> MagicNumber = 7, typeCode = (\<lambda>t. case t of I32 \<Rightarrow> 0 | F32 \<Rightarrow> 1 | F64 \<Rightarrow> 2 | Void \<Rightarrow> 3),
       OpWithImm_ImmMax = 31, VarTypeWithImm_OnlyI32 = 0,
       VarType_I32 = 1, VarType_F32 = 2, VarType_F64 = 4,
       packWithImm = (\<lambda>c imm. 128 + 32 * c + imm) \<rparr>"

definition sampleAssembly :: Assembly where
  "sampleAssembly =
     \<lparr> precomputedSize = 0, constantsI32 = [], constantsF32 = [], constantsF64 = [],
       functionSignatures = [], functionImports = [], functionImportSignaturePoolSize = 0,
       globalVariables = [], functionDeclarations = [], functionPointerTables = [],
       functionDefinitions = [], export = DefaultExport 0 \<rparr>"

definition writerAt :: "State \<Rightarrow> Assembly \<Rightarrow> Writer" where
  "writerAt s a = (new_Writer a)\<lparr>state := s, bufferQueue := push 64 new_BufferQueue\<rparr>"

text \<open>
  Claim C7, as the spec words it: a record export is emitted as one pair per entry in
  insertion order. The functions inserted under the names "b", "2", "a" and "1", in this
  order, are emitted under "1", "2", "b" and "a".
\<close>

theorem export_pairs_not_in_insertion_order_counterexample:
  "writeExport
     (writerAt EXPORT
        (sampleAssembly\<lparr>export := RecordExport [(''b'', 0), (''2'', 1), (''a'', 2), (''1'', 3)]\<rparr>))
     = Inr ((writerAt EXPORT
              (sampleAssembly\<lparr>export := RecordExport [(''b'', 0), (''2'', 1), (''a'', 2), (''1'', 3)]\<rparr>))
             \<lparr>bufferQueue :=
                \<lparr>room = 64,
                  committed = [1, 4, 49, 0, 3, 50, 0, 1, 98, 0, 0, 97, 0, 2],
                  staged = []\<rparr>,
              state := END\<rparr>)
   \<and> claimedRecordBytes [(''b'', 0), (''2'', 1), (''a'', 2), (''1'', 3)]
     = [1, 4, 98, 0, 0, 50, 0, 1, 97, 0, 2, 49, 0, 3]
   \<and> [1, 4, 49, 0, 3, 50, 0, 1, 98, 0, 0, 97, 0, 2]
     \<noteq> claimedRecordBytes [(''b'', 0), (''2'', 1), (''a'', 2), (''1'', 3)]"
  by (simp add: writeExport_def writerAt_def sampleAssembly_def new_Writer_def
        new_BufferQueue_def push_def Object_keys_def isArrayIndex_def isDigit_def
        indexValue_def property_def claimedRecordBytes_def committing_def commit_def
        andThen_def queue_defs ExportFormat_Record_def varint.simps cstring_def)

text \<open>
  Claim C7, amended. The EXPORT step emits a one-byte discriminator, then for a Default
  export the varint index of the exported function, and for a Record export a varint pair
  count followed by one pair of NUL-terminated name and varint function index per entry,
  in the order of \<^verbatim>\<open>Object.keys\<close>: the names that are array indices first, in ascending
  numeric order, then the other names in insertion order. When no name is an array index
  this is insertion order. An export of any other shape makes the step throw, which is
  fatal: the writer goes to ERROR and emits the error. The bytes are those committed when
  the queue has room for the batch.
\<close>

theorem export_encoding:
  "(export (assembly w) = DefaultExport f \<and> staged (bufferQueue w) = []
      \<and> length (committed (bufferQueue w)) + length (0 # varint f) \<le> room (bufferQueue w) \<longrightarrow>
      writeExport w
        = Inr (w\<lparr>bufferQueue :=
                   (bufferQueue w)\<lparr>committed := committed (bufferQueue w) @ 0 # varint f\<rparr>,
                 state := END\<rparr>))
   \<and> (export (assembly w) = RecordExport fs \<and> staged (bufferQueue w) = []
      \<and> length (committed (bufferQueue w))
          + length (1 # varint (length fs) @ concat (map (pairBytes fs) (Object_keys fs)))
          \<le> room (bufferQueue w) \<longrightarrow>
      writeExport w
        = Inr (w\<lparr>bufferQueue :=
                   (bufferQueue w)\<lparr>committed := committed (bufferQueue w)
                      @ 1 # varint (length fs)
                      @ concat (map (pairBytes fs) (Object_keys fs))\<rparr>,
                 state := END\<rparr>))
   \<and> Object_keys fs
       = filter isArrayIndex (Object_keys fs) @ filter (\<lambda>name. \<not> isArrayIndex name) (Object_keys fs)
   \<and> sorted (map indexValue (filter isArrayIndex (Object_keys fs)))
   \<and> filter (\<lambda>name. \<not> isArrayIndex name) (Object_keys fs)
       = filter (\<lambda>name. \<not> isArrayIndex name) (map fst fs)
   \<and> set (Object_keys fs) = set (map fst fs) \<and> length (Object_keys fs) = length fs
   \<and> (distinct (map fst fs) \<longrightarrow> distinct (Object_keys fs))
   \<and> (\<forall>name\<in>set (Object_keys fs). \<exists>f. (name, f) \<in> set fs \<and> pairBytes fs name = cstring name @ varint f)
   \<and> (distinct (map fst fs) \<and> (\<forall>name\<in>set (map fst fs). \<not> isArrayIndex name) \<longrightarrow>
        1 # varint (length fs) @ concat (map (pairBytes fs) (Object_keys fs))
          = claimedRecordBytes fs)
   \<and> (export (assembly w) = OtherExport \<longrightarrow>
      writeExport w = Inl (Error ''illegal export'', w)
      \<and> (state w = EXPORT \<longrightarrow>
           state (process T w) = ERROR
           \<and> errors (process T w) = errors w @ [Error ''illegal export'']))"
proof (intro conjI impI)
  assume a: "export (assembly w) = DefaultExport f \<and> staged (bufferQueue w) = []
      \<and> length (committed (bufferQueue w)) + length (0 # varint f) \<le> room (bufferQueue w)"
  then show "writeExport w
        = Inr (w\<lparr>bufferQueue :=
                   (bufferQueue w)\<lparr>committed := committed (bufferQueue w) @ 0 # varint f\<rparr>,
                 state := END\<rparr>)"
    by (simp add: writeExport_def committing_fits queue_defs andThen_def ExportFormat_Default_def)
next
  assume a: "export (assembly w) = RecordExport fs \<and> staged (bufferQueue w) = []
      \<and> length (committed (bufferQueue w))
          + length (1 # varint (length fs) @ concat (map (pairBytes fs) (Object_keys fs)))
          \<le> room (bufferQueue w)"
  have keys: "\<forall>name\<in>set (Object_keys fs). property fs name \<noteq> None"
    by (simp add: property_Object_keys)
  from a show "writeExport w
        = Inr (w\<lparr>bufferQueue :=
                   (bufferQueue w)\<lparr>committed := committed (bufferQueue w)
                      @ 1 # varint (length fs)
                      @ concat (map (pairBytes fs) (Object_keys fs))\<rparr>,
                 state := END\<rparr>)"
    by (simp add: writeExport_def length_Object_keys writeExportPairs_bytes[OF keys]
          committing_fits queue_defs andThen_def ExportFormat_Record_def)
next
  show "Object_keys fs
       = filter isArrayIndex (Object_keys fs) @ filter (\<lambda>name. \<not> isArrayIndex name) (Object_keys fs)"
    by (simp add: Object_keys_def filter_empty_conv filter_id_conv)
next
  show "sorted (map indexValue (filter isArrayIndex (Object_keys fs)))"
    by (simp add: Object_keys_def filter_id_conv)
next
  show "filter (\<lambda>name. \<not> isArrayIndex name) (Object_keys fs)
       = filter (\<lambda>name. \<not> isArrayIndex name) (map fst fs)"
    by (simp add: Object_keys_def filter_empty_conv)
next
  show "set (Object_keys fs) = set (map fst fs)"
    by (simp add: set_Object_keys)
next
  show "length (Object_keys fs) = length fs"
    by (rule length_Object_keys)
next
  assume "distinct (map fst fs)"
  then show "distinct (Object_keys fs)"
    by (auto simp: Object_keys_def)
next
  show "\<forall>name\<in>set (Object_keys fs). \<exists>f. (name, f) \<in> set fs \<and> pairBytes fs name = cstring name @ varint f"
    by (auto simp: set_Object_keys pairBytes_def property_def split: option.splits
             dest: map_of_SomeD simp: map_of_eq_None_iff)
next
  assume a: "distinct (map fst fs) \<and> (\<forall>name\<in>set (map fst fs). \<not> isArrayIndex name)"
  then have "Object_keys fs = map fst fs"
    by (simp add: Object_keys_insertion)
  with a show "1 # varint (length fs) @ concat (map (pairBytes fs) (Object_keys fs))
          = claimedRecordBytes fs"
    by (simp only: pairBytes_insertion claimedRecordBytes_def)
next
  assume a: "export (assembly w) = OtherExport"
  then show "writeExport w = Inl (Error ''illegal export'', w)"
    by (simp add: writeExport_def)
next
  assume a: "export (assembly w) = OtherExport" and s: "state w = EXPORT"
  then have r: "runStep T w = Inl (Error ''illegal export'', w)"
    by (simp add: runStep_def returning_def writeExport_def)
  have p: "process T w = finish (w\<lparr>errors := errors w @ [Error ''illegal export''], state := ERROR\<rparr>)"
    using s process_loop_fatal[OF r] by (simp add: process_def)
  show "state (process T w) = ERROR" by (simp add: p finish_def)
  show "errors (process T w) = errors w @ [Error ''illegal export'']" by (simp add: p finish_def)
qed

text \<open>
  The export of function 3, the record export of "main" and "init", the record export of
  "b", "2", "a" and "1", and an export of another shape.
\<close>

theorem export_encoding_witness:
  "writeExport (writerAt EXPORT (sampleAssembly\<lparr>export := DefaultExport 3\<rparr>))
     = Inr ((writerAt EXPORT (sampleAssembly\<lparr>export := DefaultExport 3\<rparr>))
             \<lparr>bufferQueue := \<lparr>room = 64, committed = [0, 3], staged = []\<rparr>, state := END\<rparr>)
   \<and> writeExport
       (writerAt EXPORT (sampleAssembly\<lparr>export := RecordExport [(''main'', 0), (''init'', 1)]\<rparr>))
     = Inr ((writerAt EXPORT (sampleAssembly\<lparr>export := RecordExport [(''main'', 0), (''init'', 1)]\<rparr>))
             \<lparr>bufferQueue :=
                \<lparr>room = 64,
                  committed = [1, 2, 109, 97, 105, 110, 0, 0, 105, 110, 105, 116, 0, 1],
                  staged = []\<rparr>,
              state := END\<rparr>)
   \<and> claimedRecordBytes [(''main'', 0), (''init'', 1)]
     = [1, 2, 109, 97, 105, 110, 0, 0, 105, 110, 105, 116, 0, 1]
   \<and> writeExport
       (writerAt EXPORT
          (sampleAssembly\<lparr>export := RecordExport [(''b'', 0), (''2'', 1), (''a'', 2), (''1'', 3)]\<rparr>))
     = Inr ((writerAt EXPORT
              (sampleAssembly\<lparr>export := RecordExport [(''b'', 0), (''2'', 1), (''a'', 2), (''1'', 3)]\<rparr>))
             \<lparr>bufferQueue :=
                \<lparr>room = 64,
                  committed = [1, 4, 49, 0, 3, 50, 0, 1, 98, 0, 0, 97, 0, 2],
                  staged = []\<rparr>,
              state := END\<rparr>)
   \<and> Object_keys [(''b'', 0::nat), (''2'', 1), (''a'', 2), (''1'', 3)] = [''1'', ''2'', ''b'', ''a'']
   \<and> Object_keys [(''10'', 0::nat), (''x'', 1), (''9'', 2), (''01'', 3)] = [''9'', ''10'', ''x'', ''01'']
   \<and> writeExport (writerAt EXPORT (sampleAssembly\<lparr>export := OtherExport\<rparr>))
     = Inl (Error ''illegal export'', writerAt EXPORT (sampleAssembly\<lparr>export := OtherExport\<rparr>))
   \<and> state (process sampleTypes (writerAt EXPORT (sampleAssembly\<lparr>export := OtherExport\<rparr>))) = ERROR
   \<and> errors (process sampleTypes (writerAt EXPORT (sampleAssembly\<lparr>export := OtherExport\<rparr>)))
     = [Error ''illegal export'']"
  using export_encoding [of "writerAt EXPORT (sampleAssembly\<lparr>export := DefaultExport 3\<rparr>)" 3 "[]" sampleTypes]
        export_encoding [of "writerAt EXPORT (sampleAssembly\<lparr>export := RecordExport [(''main'', 0), (''init'', 1)]\<rparr>)"
           0 "[(''main'', 0), (''init'', 1)]" sampleTypes]
        export_encoding [of "writerAt EXPORT
              (sampleAssembly\<lparr>export := RecordExport [(''b'', 0), (''2'', 1), (''a'', 2), (''1'', 3)]\<rparr>)"
           0 "[(''b'', 0), (''2'', 1), (''a'', 2), (''1'', 3)]" sampleTypes]
        export_encoding [of "writerAt EXPORT (sampleAssembly\<lparr>export := OtherExport\<rparr>)" 0 "[]" sampleTypes]
  by (simp add: writerAt_def sampleAssembly_def new_Writer_def new_BufferQueue_def push_def
        varint.simps cstring_def Object_keys_def isArrayIndex_def isDigit_def indexValue_def
        pairBytes_def property_def claimedRecordBytes_def)

subsection \<open>The header of the local counts\<close>

text \<open>The number of declared locals (not arguments) of a type in a variable table.\<close>

definition localsOfType :: "Type \<Rightarrow> LocalVariable list \<Rightarrow> nat" where
  "localsOfType t vs = length (filter (\<lambda>v. \<not> isArgument v \<and> var_type v = t) vs)"

lemma countVars_counts:
  "localsOfType Void vs = 0 \<Longrightarrow>
     countVars vs a b c
       = Inr (a + localsOfType I32 vs, b + localsOfType F32 vs, c + localsOfType F64 vs)"
proof (induction vs arbitrary: a b c)
  case Nil
  then show ?case by (simp add: localsOfType_def)
next
  case (Cons v vs)
  from Cons.prems have v: "isArgument v \<or> var_type v \<noteq> Void" and vs: "localsOfType Void vs = 0"
    by (auto simp: localsOfType_def split: if_splits)
  show ?case
    using v Cons.IH[OF vs] by (cases "var_type v") (auto simp: localsOfType_def)
qed

lemma localsOfType_constructed:
  "localsOfType t (variables (new_FunctionDefinition decl i f d bo bl))
     = (case t of I32 \<Rightarrow> i | F32 \<Rightarrow> f | F64 \<Rightarrow> d | Void \<Rightarrow> 0)"
  by (cases t) (simp_all add: localsOfType_def new_FunctionDefinition_def filter_map comp_def)

lemma countVars_constructed:
  "countVars (variables (new_FunctionDefinition decl i f d bo bl)) 0 0 0 = Inr (i, f, d)"
  using countVars_counts[of "variables (new_FunctionDefinition decl i f d bo bl)" 0 0 0]
  by (simp add: localsOfType_constructed)

lemma writeVarCounts_packed:
  "nI32 \<le> OpWithImm_ImmMax T \<Longrightarrow>
     writeVarCounts T nI32 0 0 q
       = q\<lparr>staged := staged q @ [packWithImm T (VarTypeWithImm_OnlyI32 T) nI32 mod 256]\<rparr>"
  by (simp add: writeVarCounts_def writeUInt8_def)

lemma writeVarCounts_flags:
  "0 < nF32 \<or> 0 < nF64 \<Longrightarrow>
     writeVarCounts T nI32 nF32 nF64 q
       = q\<lparr>staged := staged q
            @ [((if 0 < nI32 then VarType_I32 T else 0)
                 OR (if 0 < nF32 then VarType_F32 T else 0)
                 OR (if 0 < nF64 then VarType_F64 T else 0)) mod 256]
            @ (if 0 < nI32 then varint nI32 else [])
            @ (if 0 < nF32 then varint nF32 else [])
            @ (if 0 < nF64 then varint nF64 else [])\<rparr>"
  by (auto simp: writeVarCounts_def writeUInt8_def writeVarint_def Let_def or.assoc)

text \<open>
  Claim C6. Take the function definition that the FUNCTION_DEFINITIONS step is about to
  emit, all of whose declared locals are of the three numeric types. When its locals are
  exactly \<open>n\<close> I32 locals, \<open>n\<close> at most the packed-immediate maximum, and no F32 or F64
  local, the committed header is the single packed byte carrying \<open>n\<close>. When it has at
  least one F32 or F64 local, the header is the byte of type flags followed by one varint
  count per type that is present, in the order I32, F32, F64. The step then starts the
  body writer on the definition and returns \<^verbatim>\<open>true\<close>.
\<close>

theorem local_count_header:
  assumes "sequence w < length (functionDeclarations (assembly w))"
    and "sequence w < length (functionDefinitions (assembly w))"
    and "vs = variables (functionDefinitions (assembly w) ! sequence w)"
    and "localsOfType Void vs = 0"
    and "staged (bufferQueue w) = []"
  shows
    "(localsOfType F32 vs = 0 \<and> localsOfType F64 vs = 0
        \<and> localsOfType I32 vs \<le> OpWithImm_ImmMax T
        \<and> length (committed (bufferQueue w)) + 1 \<le> room (bufferQueue w) \<longrightarrow>
      writeFunctionDefinitions T w
        = Inr (w\<lparr>bufferQueue :=
                   (bufferQueue w)\<lparr>committed := committed (bufferQueue w)
                      @ [packWithImm T (VarTypeWithImm_OnlyI32 T) (localsOfType I32 vs) mod 256]\<rparr>,
                 astWriter := Some (functionDefinitions (assembly w) ! sequence w)\<rparr>, True))
     \<and> ((0 < localsOfType F32 vs \<or> 0 < localsOfType F64 vs)
        \<and> hdr = [((if 0 < localsOfType I32 vs then VarType_I32 T else 0)
                    OR (if 0 < localsOfType F32 vs then VarType_F32 T else 0)
                    OR (if 0 < localsOfType F64 vs then VarType_F64 T else 0)) mod 256]
                  @ (if 0 < localsOfType I32 vs then varint (localsOfType I32 vs) else [])
                  @ (if 0 < localsOfType F32 vs then varint (localsOfType F32 vs) else [])
                  @ (if 0 < localsOfType F64 vs then varint (localsOfType F64 vs) else [])
        \<and> length (committed (bufferQueue w)) + length hdr \<le> room (bufferQueue w) \<longrightarrow>
      writeFunctionDefinitions T w
        = Inr (w\<lparr>bufferQueue :=
                   (bufferQueue w)\<lparr>committed := committed (bufferQueue w) @ hdr\<rparr>,
                 astWriter := Some (functionDefinitions (assembly w) ! sequence w)\<rparr>, True))"
proof -
  have c: "countVars vs 0 0 0 = Inr (localsOfType I32 vs, localsOfType F32 vs, localsOfType F64 vs)"
    using countVars_counts[OF assms(4), of 0 0 0] by simp
  show ?thesis
  proof (intro conjI impI)
    assume a: "localsOfType F32 vs = 0 \<and> localsOfType F64 vs = 0
        \<and> localsOfType I32 vs \<le> OpWithImm_ImmMax T
        \<and> length (committed (bufferQueue w)) + 1 \<le> room (bufferQueue w)"
    then show "writeFunctionDefinitions T w
        = Inr (w\<lparr>bufferQueue :=
                   (bufferQueue w)\<lparr>committed := committed (bufferQueue w)
                      @ [packWithImm T (VarTypeWithImm_OnlyI32 T) (localsOfType I32 vs) mod 256]\<rparr>,
                 astWriter := Some (functionDefinitions (assembly w) ! sequence w)\<rparr>, True)"
      using assms(1,2,5) c[unfolded assms(3)]
      by (simp add: writeFunctionDefinitions_def Let_def assms(3)[symmetric] c
            writeVarCounts_packed committing_fits)
  next
    assume a: "(0 < localsOfType F32 vs \<or> 0 < localsOfType F64 vs)
        \<and> hdr = [((if 0 < localsOfType I32 vs then VarType_I32 T else 0)
                    OR (if 0 < localsOfType F32 vs then VarType_F32 T else 0)
                    OR (if 0 < localsOfType F64 vs then VarType_F64 T else 0)) mod 256]
                  @ (if 0 < localsOfType I32 vs then varint (localsOfType I32 vs) else [])
                  @ (if 0 < localsOfType F32 vs then varint (localsOfType F32 vs) else [])
                  @ (if 0 < localsOfType F64 vs then varint (localsOfType F64 vs) else [])
        \<and> length (committed (bufferQueue w)) + length hdr \<le> room (bufferQueue w)"
    note f = conjunct1[OF a]
    note h = conjunct1[OF conjunct2[OF a]]
    note room = conjunct2[OF conjunct2[OF a]]
    have q: "writeVarCounts T (localsOfType I32 vs) (localsOfType F32 vs) (localsOfType F64 vs) (bufferQueue w)
        = (bufferQueue w)\<lparr>staged := hdr\<rparr>"
    proof -
      show ?thesis
        unfolding writeVarCounts_flags[OF f] h[symmetric] using assms(5) by simp
    qed
    have cm: "committing w ((bufferQueue w)\<lparr>staged := hdr\<rparr>)
        = Inr (w\<lparr>bufferQueue := (bufferQueue w)\<lparr>committed := committed (bufferQueue w) @ hdr\<rparr>\<rparr>)"
      using committing_fits[of "(bufferQueue w)\<lparr>staged := hdr\<rparr>" w] room assms(5) by simp
    show "writeFunctionDefinitions T w
        = Inr (w\<lparr>bufferQueue :=
                   (bufferQueue w)\<lparr>committed := committed (bufferQueue w) @ hdr\<rparr>,
                 astWriter := Some (functionDefinitions (assembly w) ! sequence w)\<rparr>, True)"
      using assms(1,2)
      by (simp add: writeFunctionDefinitions_def Let_def assms(3)[symmetric] c q cm)
  qed
qed

lemma sampleTypes_fields:
  "MagicNumber sampleTypes = 7"
  "OpWithImm_ImmMax sampleTypes = 31"
  "VarTypeWithImm_OnlyI32 sampleTypes = 0"
  "VarType_I32 sampleTypes = 1"
  "VarType_F32 sampleTypes = 2"
  "VarType_F64 sampleTypes = 4"
  "packWithImm sampleTypes c imm = 128 + 32 * c + imm"
  "typeCode sampleTypes t = (case t of I32 \<Rightarrow> 0 | F32 \<Rightarrow> 1 | F64 \<Rightarrow> 2 | Void \<Rightarrow> 3)"
  by (simp_all add: sampleTypes_def)

text \<open>
  Two definitions: 3 I32 locals, and 3 I32 locals plus 1 F32 local. The first header is
  the packed byte 128 + 3, the second the flags byte 1 OR 2 followed by varint 3 and
  varint 1.
\<close>

definition sampleDefinitions :: Assembly where
  "sampleDefinitions =
     sampleAssembly
       \<lparr> functionDeclarations := [sampleDeclaration, sampleDeclaration],
         functionDefinitions :=
           [new_FunctionDefinition sampleDeclaration 3 0 0 None None,
            new_FunctionDefinition sampleDeclaration 3 1 0 None None] \<rparr>"

theorem local_count_header_witness:
  "writeFunctionDefinitions sampleTypes (writerAt FUNCTION_DEFINITIONS sampleDefinitions)
     = Inr ((writerAt FUNCTION_DEFINITIONS sampleDefinitions)
              \<lparr>bufferQueue := \<lparr>room = 64, committed = [131], staged = []\<rparr>,
               astWriter := Some (new_FunctionDefinition sampleDeclaration 3 0 0 None None)\<rparr>, True)
   \<and> writeFunctionDefinitions sampleTypes
       ((writerAt FUNCTION_DEFINITIONS sampleDefinitions)\<lparr>sequence := 1\<rparr>)
     = Inr ((writerAt FUNCTION_DEFINITIONS sampleDefinitions)
              \<lparr>sequence := 1,
               bufferQueue := \<lparr>room = 64, committed = [3, 3, 1], staged = []\<rparr>,
               astWriter := Some (new_FunctionDefinition sampleDeclaration 3 1 0 None None)\<rparr>, True)"
  using local_count_header
          [of "writerAt FUNCTION_DEFINITIONS sampleDefinitions"
              "variables (new_FunctionDefinition sampleDeclaration 3 0 0 None None)"
              sampleTypes "[]"]
        local_count_header
          [of "(writerAt FUNCTION_DEFINITIONS sampleDefinitions)\<lparr>sequence := 1\<rparr>"
              "variables (new_FunctionDefinition sampleDeclaration 3 1 0 None None)"
              sampleTypes "[3, 3, 1]"]
  by (simp add: localsOfType_constructed writerAt_def sampleDefinitions_def sampleAssembly_def
        new_Writer_def new_BufferQueue_def push_def sampleTypes_fields varint.simps)

subsection \<open>The order of the global variables\<close>

text \<open>
  The spec's grouped order, in the spec's words: the entries appear grouped as
  [I32 zero-init] [F32 zero-init] [F64 zero-init] [I32 imported] [F32 imported]
  [F64 imported]. \<open>groupIndex\<close> numbers the six groups (6 for a variable of no numeric
  type); a pool is in the mandated order when its group numbers never decrease.
\<close>

definition groupIndex :: "GlobalVariable \<Rightarrow> nat" where
  "groupIndex v =
     (case (gv_type v, importName v) of
        (I32, None) \<Rightarrow> 0 | (F32, None) \<Rightarrow> 1 | (F64, None) \<Rightarrow> 2
      | (I32, Some n) \<Rightarrow> 3 | (F32, Some n) \<Rightarrow> 4 | (F64, Some n) \<Rightarrow> 5
      | (Void, x) \<Rightarrow> 6)"

definition mandatedOrder :: "GlobalVariable list \<Rightarrow> bool" where
  "mandatedOrder vars \<longleftrightarrow>
     sorted (map groupIndex vars) \<and> list_all (\<lambda>v. groupIndex v < 6) vars"

text \<open>
  Skipping the variables of one type removes at least one whole group of a pool in the
  mandated order, so six skips consume it.
\<close>

lemma dropWhile_group:
  assumes "sorted (map g xs)" and "\<forall>x\<in>set xs. k \<le> g x" and "\<forall>x\<in>set xs. g x = k \<longrightarrow> P x"
  shows "sorted (map g (dropWhile P xs)) \<and> (\<forall>x\<in>set (dropWhile P xs). Suc k \<le> g x)"
  using assms
proof (induction xs)
  case Nil
  then show ?case by simp
next
  case (Cons x xs)
  show ?case
  proof (cases "P x")
    case True
    with Cons show ?thesis by simp
  next
    case False
    with Cons.prems have "g x \<noteq> k" "k \<le> g x" by auto
    then have "Suc k \<le> g x" by simp
    moreover from Cons.prems(1) have "\<forall>y\<in>set xs. g x \<le> g y" by simp
    ultimately show ?thesis using False Cons.prems(1) by auto
  qed
qed

lemma scan_step:
  assumes "drop cur vars = r" and "cur \<le> length vars"
  shows "drop (cur + scan vars t cur) vars = dropWhile (\<lambda>v. gv_type v = t) r
         \<and> cur + scan vars t cur \<le> length vars"
proof -
  have n: "scan vars t cur = length (takeWhile (\<lambda>v. gv_type v = t) r)"
    using assms(1) by (simp add: scan_def)
  have "drop (cur + scan vars t cur) vars = drop (scan vars t cur) r"
    by (simp add: assms(1)[symmetric] add.commute)
  also have "\<dots> = dropWhile (\<lambda>v. gv_type v = t) r"
    by (simp add: n dropWhile_eq_drop)
  finally have a: "drop (cur + scan vars t cur) vars = dropWhile (\<lambda>v. gv_type v = t) r" .
  have "scan vars t cur \<le> length r"
    by (simp add: n length_takeWhile_le)
  then have "cur + scan vars t cur \<le> length vars"
    using assms by auto
  with a show ?thesis by simp
qed

lemma groupIndex_type:
  "groupIndex v = 0 \<Longrightarrow> gv_type v = I32"
  "groupIndex v = Suc 0 \<Longrightarrow> gv_type v = F32"
  "groupIndex v = 2 \<Longrightarrow> gv_type v = F64"
  "groupIndex v = 3 \<Longrightarrow> gv_type v = I32"
  "groupIndex v = 4 \<Longrightarrow> gv_type v = F32"
  "groupIndex v = 5 \<Longrightarrow> gv_type v = F64"
  by (auto simp: groupIndex_def split: Type.splits option.splits)

lemma mandatedOrder_consumed:
  assumes "mandatedOrder vars"
  shows "scan vars I32 0 + scan vars F32 (scan vars I32 0)
         + scan vars F64 (scan vars I32 0 + scan vars F32 (scan vars I32 0))
         + scan vars I32 (scan vars I32 0 + scan vars F32 (scan vars I32 0)
             + scan vars F64 (scan vars I32 0 + scan vars F32 (scan vars I32 0)))
         + scan vars F32 (scan vars I32 0 + scan vars F32 (scan vars I32 0)
             + scan vars F64 (scan vars I32 0 + scan vars F32 (scan vars I32 0))
             + scan vars I32 (scan vars I32 0 + scan vars F32 (scan vars I32 0)
                 + scan vars F64 (scan vars I32 0 + scan vars F32 (scan vars I32 0))))
         + scan vars F64 (scan vars I32 0 + scan vars F32 (scan vars I32 0)
             + scan vars F64 (scan vars I32 0 + scan vars F32 (scan vars I32 0))
             + scan vars I32 (scan vars I32 0 + scan vars F32 (scan vars I32 0)
                 + scan vars F64 (scan vars I32 0 + scan vars F32 (scan vars I32 0)))
             + scan vars F32 (scan vars I32 0 + scan vars F32 (scan vars I32 0)
                 + scan vars F64 (scan vars I32 0 + scan vars F32 (scan vars I32 0))
                 + scan vars I32 (scan vars I32 0 + scan vars F32 (scan vars I32 0)
                     + scan vars F64 (scan vars I32 0 + scan vars F32 (scan vars I32 0)))))
         = length vars"
proof -
  define c1 where "c1 = 0 + scan vars I32 0"
  define c2 where "c2 = c1 + scan vars F32 c1"
  define c3 where "c3 = c2 + scan vars F64 c2"
  define c4 where "c4 = c3 + scan vars I32 c3"
  define c5 where "c5 = c4 + scan vars F32 c4"
  define c6 where "c6 = c5 + scan vars F64 c5"
  define r1 where "r1 = dropWhile (\<lambda>v. gv_type v = I32) vars"
  define r2 where "r2 = dropWhile (\<lambda>v. gv_type v = F32) r1"
  define r3 where "r3 = dropWhile (\<lambda>v. gv_type v = F64) r2"
  define r4 where "r4 = dropWhile (\<lambda>v. gv_type v = I32) r3"
  define r5 where "r5 = dropWhile (\<lambda>v. gv_type v = F32) r4"
  define r6 where "r6 = dropWhile (\<lambda>v. gv_type v = F64) r5"
  from assms have s0: "sorted (map groupIndex vars)" and lt: "\<forall>v\<in>set vars. groupIndex v < 6"
    by (simp_all add: mandatedOrder_def list_all_iff)
  have g1: "sorted (map groupIndex r1) \<and> (\<forall>x\<in>set r1. Suc 0 \<le> groupIndex x)"
    unfolding r1_def by (rule dropWhile_group[OF s0]) (auto dest: groupIndex_type)
  have g2: "sorted (map groupIndex r2) \<and> (\<forall>x\<in>set r2. Suc (Suc 0) \<le> groupIndex x)"
    unfolding r2_def using g1 by (intro dropWhile_group) (auto dest: groupIndex_type)
  have g3: "sorted (map groupIndex r3) \<and> (\<forall>x\<in>set r3. Suc 2 \<le> groupIndex x)"
    unfolding r3_def using g2 by (intro dropWhile_group) (auto dest: groupIndex_type)
  have g4: "sorted (map groupIndex r4) \<and> (\<forall>x\<in>set r4. Suc 3 \<le> groupIndex x)"
    unfolding r4_def using g3 by (intro dropWhile_group) (auto dest: groupIndex_type)
  have g5: "sorted (map groupIndex r5) \<and> (\<forall>x\<in>set r5. Suc 4 \<le> groupIndex x)"
    unfolding r5_def using g4 by (intro dropWhile_group) (auto dest: groupIndex_type)
  have g6: "sorted (map groupIndex r6) \<and> (\<forall>x\<in>set r6. Suc 5 \<le> groupIndex x)"
    unfolding r6_def using g5 by (intro dropWhile_group) (auto dest: groupIndex_type)
  have sub: "set r6 \<subseteq> set vars"
    unfolding r6_def r5_def r4_def r3_def r2_def r1_def
    by (meson set_dropWhileD subsetI)
  have e: "r6 = []"
  proof (cases r6)
    case (Cons x xs)
    then have "x \<in> set r6" by simp
    with g6 sub lt have "Suc 5 \<le> groupIndex x" "groupIndex x < 6" by auto
    then show ?thesis by simp
  qed simp
  have d1: "drop c1 vars = r1 \<and> c1 \<le> length vars"
    unfolding c1_def r1_def by (rule scan_step) simp_all
  have d2: "drop c2 vars = r2 \<and> c2 \<le> length vars"
    unfolding c2_def r2_def using d1 by (intro scan_step) simp_all
  have d3: "drop c3 vars = r3 \<and> c3 \<le> length vars"
    unfolding c3_def r3_def using d2 by (intro scan_step) simp_all
  have d4: "drop c4 vars = r4 \<and> c4 \<le> length vars"
    unfolding c4_def r4_def using d3 by (intro scan_step) simp_all
  have d5: "drop c5 vars = r5 \<and> c5 \<le> length vars"
    unfolding c5_def r5_def using d4 by (intro scan_step) simp_all
  have d6: "drop c6 vars = r6 \<and> c6 \<le> length vars"
    unfolding c6_def r6_def using d5 by (intro scan_step) simp_all
  from d6 e have "c6 = length vars" by simp
  then show ?thesis
    by (simp add: c6_def c5_def c4_def c3_def c2_def c1_def add.assoc)
qed

text \<open>
  For a pool in the mandated order the scan derives six counts that add up to the pool's
  size, the assertion holds, and the step reaches its commit with the six counts staged.
\<close>

lemma globals_count_in_order:
  assumes "mandatedOrder (globalVariables (assembly w))"
    and "staged (bufferQueue w) = []"
  shows "\<exists>n1 n2 n3 n4 n5 n6.
     n1 + n2 + n3 + n4 + n5 + n6 = length (globalVariables (assembly w))
     \<and> writeGlobalVariablesCount w
         = andThen
             (committing
                (w\<lparr>bufferQueue := (bufferQueue w)\<lparr>staged :=
                      varint n1 @ varint n2 @ varint n3 @ varint n4 @ varint n5\<rparr>,
                   sequence := n1 + n2 + n3\<rparr>)
                ((bufferQueue w)\<lparr>staged :=
                      varint n1 @ varint n2 @ varint n3 @ varint n4 @ varint n5 @ varint n6\<rparr>))
             (\<lambda>w'. w'\<lparr>state := GLOBAL_VARIABLES\<rparr>)"
proof -
  let ?vars = "globalVariables (assembly w)"
  define n1 where "n1 = scan ?vars I32 0"
  define n2 where "n2 = scan ?vars F32 n1"
  define n3 where "n3 = scan ?vars F64 (n1 + n2)"
  define n4 where "n4 = scan ?vars I32 (n1 + n2 + n3)"
  define n5 where "n5 = scan ?vars F32 (n1 + n2 + n3 + n4)"
  define n6 where "n6 = scan ?vars F64 (n1 + n2 + n3 + n4 + n5)"
  have total: "n1 + n2 + n3 + n4 + n5 + n6 = length ?vars"
    using mandatedOrder_consumed[OF assms(1)]
    by (simp add: n1_def n2_def n3_def n4_def n5_def n6_def)
  have "writeGlobalVariablesCount w
      = andThen
          (committing
             (w\<lparr>bufferQueue := (bufferQueue w)\<lparr>staged :=
                   varint n1 @ varint n2 @ varint n3 @ varint n4 @ varint n5\<rparr>,
                sequence := n1 + n2 + n3\<rparr>)
             ((bufferQueue w)\<lparr>staged :=
                   varint n1 @ varint n2 @ varint n3 @ varint n4 @ varint n5 @ varint n6\<rparr>))
          (\<lambda>w'. w'\<lparr>state := GLOBAL_VARIABLES\<rparr>)"
    using total assms(2)
    by (simp add: writeGlobalVariablesCount_def Let_def writeVarint_def
          n1_def n2_def n3_def n4_def n5_def n6_def)
  with total show ?thesis by blast
qed

text \<open>
  When the step fails fatally, it fails with the assertion's error, before its commit: no
  byte has been committed, and the pool is not in the mandated order.
\<close>

lemma globals_count_fatal:
  assumes "writeGlobalVariablesCount w = Inl (e, w')" and "e \<noteq> E_MORE"
  shows "e = AssertionError ''illegal order of global variables''
         \<and> committed (bufferQueue w') = committed (bufferQueue w)
         \<and> \<not> mandatedOrder (globalVariables (assembly w))"
proof -
  have m: "\<not> mandatedOrder (globalVariables (assembly w))"
  proof
    assume "mandatedOrder (globalVariables (assembly w))"
    from mandatedOrder_consumed[OF this] assms show False
      by (auto simp: writeGlobalVariablesCount_def Let_def andThen_Inl add.assoc
               dest!: committing_Inl split: if_splits)
  qed
  from assms have "e = AssertionError ''illegal order of global variables''
         \<and> committed (bufferQueue w') = committed (bufferQueue w)"
    by (auto simp: writeGlobalVariablesCount_def Let_def andThen_Inl writeVarint_def
             dest!: committing_Inl split: if_splits)
  with m show ?thesis by simp
qed

text \<open>A pool with an imported I32 variable before a zero-initialized one.\<close>

definition misorderedGlobals :: "GlobalVariable list" where
  "misorderedGlobals =
     [\<lparr> gv_type = I32, importName = Some ''a'' \<rparr>, \<lparr> gv_type = I32, importName = None \<rparr>]"

text \<open>
  Claim C2, on the code. The six loops compare the type only, so a pool that violates the
  mandated order by its import flags alone is not detected. The pool [I32 imported "a",
  I32 zero-initialized] is out of order, and the step succeeds on it: it commits the
  counts 2, 0, 0, 0, 0, 0, counting both variables as zero-initialized I32.
\<close>

theorem misordered_globals_accepted:
  "\<not> mandatedOrder misorderedGlobals
   \<and> writeGlobalVariablesCount
       (writerAt GLOBAL_VARIABLES_COUNT (sampleAssembly\<lparr>globalVariables := misorderedGlobals\<rparr>))
     = Inr ((writerAt GLOBAL_VARIABLES_COUNT (sampleAssembly\<lparr>globalVariables := misorderedGlobals\<rparr>))
              \<lparr>bufferQueue := \<lparr>room = 64, committed = [2, 0, 0, 0, 0, 0], staged = []\<rparr>,
               sequence := 2, state := GLOBAL_VARIABLES\<rparr>)"
  by (simp add: mandatedOrder_def groupIndex_def misorderedGlobals_def
        writeGlobalVariablesCount_def scan_def Let_def writerAt_def sampleAssembly_def
        new_Writer_def new_BufferQueue_def push_def writeVarint_def varint.simps
        committing_def commit_def andThen_def)

subsection \<open>What the loops commit\<close>

text \<open>
  The loop over a pool commits the entries from \<^verbatim>\<open>this.sequence\<close> on, one batch per
  entry, in index order. When it returns, every entry left has been committed; when it
  throws, the entries before the new \<^verbatim>\<open>this.sequence\<close> have been, and no other.
\<close>

lemma writePool_commits:
  "\<forall>x q q'. entry x q = Inr q' \<longrightarrow> q' = q\<lparr>staged := staged q @ enc x\<rparr> \<Longrightarrow>
   staged (bufferQueue w) = [] \<Longrightarrow>
     (writePool entry pool w = Inr w' \<longrightarrow>
        committed (bufferQueue w')
          = committed (bufferQueue w) @ concat (map enc (drop (sequence w) pool))
        \<and> staged (bufferQueue w') = [])
     \<and> (writePool entry pool w = Inl (e, w') \<longrightarrow>
        sequence w \<le> sequence w' \<and> sequence w' < length pool
        \<and> committed (bufferQueue w')
          = committed (bufferQueue w)
            @ concat (map enc (take (sequence w' - sequence w) (drop (sequence w) pool))))"
proof (induction entry pool w rule: writePool.induct)
  case (1 entry pool w)
  note encs = "1.prems"(1)
  have enc: "q' = q\<lparr>staged := staged q @ enc x\<rparr>" if "entry x q = Inr q'" for x q q'
    using encs that by blast
  show ?case
  proof (cases "sequence w < length pool")
    case False
    with "1.prems"(2) show ?thesis by (auto simp add: writePool.simps)
  next
    case True
    show ?thesis
    proof (cases "entry (pool ! sequence w) (bufferQueue w)")
      case (Inl x)
      with True show ?thesis by (auto simp add: writePool.simps)
    next
      case (Inr q)
      from enc[OF Inr] "1.prems"(2)
      have q: "q = (bufferQueue w)\<lparr>staged := enc (pool ! sequence w)\<rparr>" by simp
      show ?thesis
      proof (cases "committing w q")
        case (Inl x)
        then obtain e1 w1 where x: "x = (e1, w1)" by (cases x)
        from committing_Inl[OF Inl[unfolded x]] have "w1 = w\<lparr>bufferQueue := q\<rparr>" by simp
        with True Inr Inl x q show ?thesis by (auto simp add: writePool.simps)
      next
        case c: (Inr w1)
        from committing_Inr[OF c] q
        have w1: "w1 = w\<lparr>bufferQueue := (bufferQueue w)\<lparr>staged := [],
              committed := committed (bufferQueue w) @ enc (pool ! sequence w)\<rparr>\<rparr>"
          by simp
        let ?w2 = "w1\<lparr>sequence := sequence w + 1\<rparr>"
        have st: "staged (bufferQueue ?w2) = []" by (simp add: w1)
        have unfold: "writePool entry pool w = writePool entry pool ?w2"
          using True Inr c by (subst writePool.simps) simp
        have d: "drop (sequence w) pool = pool ! sequence w # drop (Suc (sequence w)) pool"
          using True by (simp add: Cons_nth_drop_Suc)
        from "1.IH"[OF True Inr c encs st]
        have ih: "(writePool entry pool ?w2 = Inr w' \<longrightarrow>
            committed (bufferQueue w')
              = committed (bufferQueue ?w2) @ concat (map enc (drop (sequence ?w2) pool))
            \<and> staged (bufferQueue w') = [])
          \<and> (writePool entry pool ?w2 = Inl (e, w') \<longrightarrow>
            sequence ?w2 \<le> sequence w' \<and> sequence w' < length pool
            \<and> committed (bufferQueue w')
              = committed (bufferQueue ?w2)
                @ concat (map enc (take (sequence w' - sequence ?w2) (drop (sequence ?w2) pool))))"
          by blast
        show ?thesis
        proof (intro conjI impI)
          assume r: "writePool entry pool w = Inr w'"
          with ih unfold show "committed (bufferQueue w')
              = committed (bufferQueue w) @ concat (map enc (drop (sequence w) pool))"
            by (simp add: w1 d)
          from r ih unfold show "staged (bufferQueue w') = []" by simp
        next
          assume r: "writePool entry pool w = Inl (e, w')"
          with ih unfold have s: "Suc (sequence w) \<le> sequence w'" and l: "sequence w' < length pool"
            and cm: "committed (bufferQueue w')
              = committed (bufferQueue w) @ enc (pool ! sequence w)
                @ concat (map enc (take (sequence w' - Suc (sequence w)) (drop (Suc (sequence w)) pool)))"
            by (simp_all add: w1)
          from s show "sequence w \<le> sequence w'" by simp
          from l show "sequence w' < length pool" .
          from s have "sequence w' - sequence w = Suc (sequence w' - Suc (sequence w))" by simp
          with cm show "committed (bufferQueue w')
              = committed (bufferQueue w)
                @ concat (map enc (take (sequence w' - sequence w) (drop (sequence w) pool)))"
            by (simp add: d)
        qed
      qed
    qed
  qed
qed

lemma writePool_Inr:
  assumes "\<And>x q q'. entry x q = Inr q' \<Longrightarrow> q' = q\<lparr>staged := staged q @ enc x\<rparr>"
    and "staged (bufferQueue w) = []"
    and "writePool entry pool w = Inr w'"
  shows "committed (bufferQueue w')
          = committed (bufferQueue w) @ concat (drop (sequence w) (map enc pool))"
  using writePool_commits[of entry enc w pool w' E_MORE] assms by (simp add: drop_map)

lemma writePool_Inl:
  assumes "\<And>x q q'. entry x q = Inr q' \<Longrightarrow> q' = q\<lparr>staged := staged q @ enc x\<rparr>"
    and "staged (bufferQueue w) = []"
    and "writePool entry pool w = Inl (e, w')"
  shows "sequence w \<le> sequence w' \<and> sequence w' < length (map enc pool)
        \<and> committed (bufferQueue w')
          = committed (bufferQueue w)
            @ concat (take (sequence w' - sequence w) (drop (sequence w) (map enc pool)))"
  using writePool_commits[of entry enc w pool w' e] assms by (simp add: drop_map take_map)

lemma writeElements_commits:
  "staged (bufferQueue w) = [] \<Longrightarrow>
     (writeElements els w = Inr w' \<longrightarrow>
        committed (bufferQueue w')
          = committed (bufferQueue w) @ concat (map varint (drop (subSequence w) els))
        \<and> staged (bufferQueue w') = [])
     \<and> (writeElements els w = Inl (e, w') \<longrightarrow>
        subSequence w \<le> subSequence w' \<and> subSequence w' < length els
        \<and> committed (bufferQueue w')
          = committed (bufferQueue w)
            @ concat (map varint (take (subSequence w' - subSequence w) (drop (subSequence w) els))))"
proof (induction els w rule: writeElements.induct)
  case (1 els w)
  show ?case
  proof (cases "subSequence w < length els")
    case False
    with "1.prems" show ?thesis by (auto simp add: writeElements.simps)
  next
    case True
    let ?q = "writeVarint (els ! subSequence w) (bufferQueue w)"
    have q: "?q = (bufferQueue w)\<lparr>staged := varint (els ! subSequence w)\<rparr>"
      using "1.prems" by (simp add: writeVarint_def)
    show ?thesis
    proof (cases "committing w ?q")
      case (Inl x)
      then obtain e1 w1 where x: "x = (e1, w1)" by (cases x)
      from committing_Inl[OF Inl[unfolded x]] have "w1 = w\<lparr>bufferQueue := ?q\<rparr>" by simp
      with True Inl x q show ?thesis by (auto simp add: writeElements.simps)
    next
      case c: (Inr w1)
      from committing_Inr[OF c] q
      have w1: "w1 = w\<lparr>bufferQueue := (bufferQueue w)\<lparr>staged := [],
            committed := committed (bufferQueue w) @ varint (els ! subSequence w)\<rparr>\<rparr>"
        by simp
      let ?w2 = "w1\<lparr>subSequence := subSequence w + 1\<rparr>"
      have st: "staged (bufferQueue ?w2) = []" by (simp add: w1)
      have unfold: "writeElements els w = writeElements els ?w2"
        using True c by (subst writeElements.simps) simp
      have d: "drop (subSequence w) els = els ! subSequence w # drop (Suc (subSequence w)) els"
        using True by (simp add: Cons_nth_drop_Suc)
      from "1.IH"[OF True c st]
      have ih: "(writeElements els ?w2 = Inr w' \<longrightarrow>
          committed (bufferQueue w')
            = committed (bufferQueue ?w2) @ concat (map varint (drop (subSequence ?w2) els))
          \<and> staged (bufferQueue w') = [])
        \<and> (writeElements els ?w2 = Inl (e, w') \<longrightarrow>
          subSequence ?w2 \<le> subSequence w' \<and> subSequence w' < length els
          \<and> committed (bufferQueue w')
            = committed (bufferQueue ?w2)
              @ concat (map varint (take (subSequence w' - subSequence ?w2) (drop (subSequence ?w2) els))))"
        by blast
      show ?thesis
      proof (intro conjI impI)
        assume r: "writeElements els w = Inr w'"
        with ih unfold show "committed (bufferQueue w')
            = committed (bufferQueue w) @ concat (map varint (drop (subSequence w) els))"
          by (simp add: w1 d)
        from r ih unfold show "staged (bufferQueue w') = []" by simp
      next
        assume r: "writeElements els w = Inl (e, w')"
        with ih unfold have s: "Suc (subSequence w) \<le> subSequence w'" and l: "subSequence w' < length els"
          and cm: "committed (bufferQueue w')
            = committed (bufferQueue w) @ varint (els ! subSequence w)
              @ concat (map varint (take (subSequence w' - Suc (subSequence w)) (drop (Suc (subSequence w)) els)))"
          by (simp_all add: w1)
        from s show "subSequence w \<le> subSequence w'" by simp
        from l show "subSequence w' < length els" .
        from s have "subSequence w' - subSequence w = Suc (subSequence w' - Suc (subSequence w))" by simp
        with cm show "committed (bufferQueue w')
            = committed (bufferQueue w)
              @ concat (map varint (take (subSequence w' - subSequence w) (drop (subSequence w) els)))"
          by (simp add: d)
      qed
    qed
  qed
qed

text \<open>
  The bytes of one entry of each pool, as the wire format table of the spec lays them
  out, and the entries of the section that a state emits with the pool loop.
\<close>

definition signatureBytes :: "Types \<Rightarrow> FunctionSignature \<Rightarrow> byte list" where
  "signatureBytes T sg =
     typeCode T (returnType sg) mod 256 # varint (length (argumentTypes sg))
       @ map (\<lambda>t. typeCode T t mod 256) (argumentTypes sg)"

definition importBytes :: "FunctionImport \<Rightarrow> byte list" where
  "importBytes i =
     cstring (imp_importName i) @ varint (length (imp_signatures i))
       @ concat (map varint (imp_signatures i))"

definition importNameBytes :: "GlobalVariable \<Rightarrow> byte list" where
  "importNameBytes v = (case importName v of None \<Rightarrow> [] | Some s \<Rightarrow> cstring s)"

fun sectionEntries :: "Types \<Rightarrow> Assembly \<Rightarrow> State \<Rightarrow> byte list list" where
  "sectionEntries T a CONSTANTS_I32 = map varint (constantsI32 a)"
| "sectionEntries T a CONSTANTS_F32 = map bytes4LE (constantsF32 a)"
| "sectionEntries T a CONSTANTS_F64 = map bytes8LE (constantsF64 a)"
| "sectionEntries T a SIGNATURES = map (signatureBytes T) (functionSignatures a)"
| "sectionEntries T a FUNCTION_IMPORTS = map importBytes (functionImports a)"
| "sectionEntries T a GLOBAL_VARIABLES = map importNameBytes (globalVariables a)"
| "sectionEntries T a FUNCTION_DECLARATIONS
     = map (\<lambda>d. varint (sig_index (decl_signature d))) (functionDeclarations a)"
| "sectionEntries T a s = []"

fun poolState :: "State \<Rightarrow> bool" where
  "poolState CONSTANTS_I32 = True"
| "poolState CONSTANTS_F32 = True"
| "poolState CONSTANTS_F64 = True"
| "poolState SIGNATURES = True"
| "poolState FUNCTION_IMPORTS = True"
| "poolState GLOBAL_VARIABLES = True"
| "poolState FUNCTION_DECLARATIONS = True"
| "poolState s = False"

lemma fold_writeUInt8:
  "fold (\<lambda>t. writeUInt8 (f t)) ts q = q\<lparr>staged := staged q @ map (\<lambda>t. f t mod 256) ts\<rparr>"
  by (induction ts arbitrary: q) (simp_all add: writeUInt8_def)

lemma fold_writeVarint:
  "fold writeVarint xs q = q\<lparr>staged := staged q @ concat (map varint xs)\<rparr>"
  by (induction xs arbitrary: q) (simp_all add: writeVarint_def)

lemma writeSignature_bytes:
  "writeSignature T sg q = q\<lparr>staged := staged q @ signatureBytes T sg\<rparr>"
  by (simp add: writeSignature_def signatureBytes_def fold_writeUInt8 writeUInt8_def writeVarint_def)

lemma writeFunctionImport_bytes:
  "writeFunctionImport i q = q\<lparr>staged := staged q @ importBytes i\<rparr>"
  by (simp add: writeFunctionImport_def importBytes_def fold_writeVarint writeCString_def writeVarint_def)

lemma writeImportName_bytes:
  "writeImportName v q = Inr q' \<Longrightarrow> q' = q\<lparr>staged := staged q @ importNameBytes v\<rparr>"
  by (auto simp: writeImportName_def importNameBytes_def writeCString_def split: option.splits)

lemma pool_step_commits:
  assumes "poolState (state w)" and "staged (bufferQueue w) = []"
  shows "(runStep T w = Inr (w', b) \<longrightarrow>
        committed (bufferQueue w')
          = committed (bufferQueue w)
            @ concat (drop (sequence w) (sectionEntries T (assembly w) (state w))))
     \<and> (runStep T w = Inl (e, w') \<longrightarrow>
        sequence w \<le> sequence w'
        \<and> sequence w' < length (sectionEntries T (assembly w) (state w))
        \<and> committed (bufferQueue w')
          = committed (bufferQueue w)
            @ concat (take (sequence w' - sequence w)
                        (drop (sequence w) (sectionEntries T (assembly w) (state w)))))"
proof -
  have p: "(writePool entry pool w = Inr w1 \<longrightarrow>
        committed (bufferQueue w1) = committed (bufferQueue w) @ concat (drop (sequence w) (map enc pool)))
     \<and> (writePool entry pool w = Inl (e, w') \<longrightarrow>
        sequence w \<le> sequence w' \<and> sequence w' < length (map enc pool)
        \<and> committed (bufferQueue w')
          = committed (bufferQueue w)
            @ concat (take (sequence w' - sequence w) (drop (sequence w) (map enc pool))))"
    if "\<And>x q q'. entry x q = Inr q' \<Longrightarrow> q' = q\<lparr>staged := staged q @ enc x\<rparr>"
    for entry :: "'a \<Rightarrow> BufferQueue \<Rightarrow> error + BufferQueue" and enc pool w1
    using writePool_Inr[of entry enc w pool w1, OF that assms(2)]
          writePool_Inl[of entry enc w pool e w', OF that assms(2)]
    by blast
  show ?thesis
  proof (cases "state w")
    case CONSTANTS_I32
    show ?thesis
      using p[of "\<lambda>c q. Inr (writeVarint c q)" varint "constantsI32 (assembly w)"]
      by (auto simp: CONSTANTS_I32 runStep_def returning_Inr returning_Inl andThen_Inr andThen_Inl
            writeConstantsI32_def writeVarint_def)
  next
    case CONSTANTS_F32
    show ?thesis
      using p[of "\<lambda>c q. Inr (writeFloatLE c q)" bytes4LE "constantsF32 (assembly w)"]
      by (auto simp: CONSTANTS_F32 runStep_def returning_Inr returning_Inl andThen_Inr andThen_Inl
            writeConstantsF32_def writeFloatLE_def)
  next
    case CONSTANTS_F64
    show ?thesis
      using p[of "\<lambda>c q. Inr (writeDoubleLE c q)" bytes8LE "constantsF64 (assembly w)"]
      by (auto simp: CONSTANTS_F64 runStep_def returning_Inr returning_Inl andThen_Inr andThen_Inl
            writeConstantsF64_def writeDoubleLE_def)
  next
    case SIGNATURES
    show ?thesis
      using p[of "\<lambda>sg q. Inr (writeSignature T sg q)" "signatureBytes T" "functionSignatures (assembly w)"]
      by (auto simp: SIGNATURES runStep_def returning_Inr returning_Inl andThen_Inr andThen_Inl
            writeSignatures_def writeSignature_bytes)
  next
    case FUNCTION_IMPORTS
    show ?thesis
      using p[of "\<lambda>i q. Inr (writeFunctionImport i q)" importBytes "functionImports (assembly w)"]
      by (auto simp: FUNCTION_IMPORTS runStep_def returning_Inr returning_Inl andThen_Inr andThen_Inl
            writeFunctionImports_def writeFunctionImport_bytes)
  next
    case GLOBAL_VARIABLES
    show ?thesis
      using p[of writeImportName importNameBytes "globalVariables (assembly w)", OF writeImportName_bytes]
      by (auto simp: GLOBAL_VARIABLES runStep_def returning_Inr returning_Inl andThen_Inr andThen_Inl
            writeGlobalVariables_def)
  next
    case FUNCTION_DECLARATIONS
    show ?thesis
      using p[of "\<lambda>d q. Inr (writeVarint (sig_index (decl_signature d)) q)"
              "\<lambda>d. varint (sig_index (decl_signature d))" "functionDeclarations (assembly w)"]
      by (auto simp: FUNCTION_DECLARATIONS runStep_def returning_Inr returning_Inl andThen_Inr andThen_Inl
            writeFunctionDeclarations_def writeVarint_def)
  qed (use assms(1) in simp_all)
qed

subsection \<open>The function pointer tables and the order of the sections\<close>

text \<open>
  The header step of table \<^verbatim>\<open>this.sequence\<close> commits the table's signature index and
  element count and hands over to the element step; the element step commits the elements
  from \<^verbatim>\<open>this.subSequence\<close> on, in order, and moves to the next table only when all of
  them have been committed.
\<close>

lemma table_header_step:
  assumes "state w = FUNCTION_POINTER_TABLES" and "staged (bufferQueue w) = []"
    and "sequence w < length (functionPointerTables (assembly w))"
  shows "(runStep T w = Inr (w', b) \<longrightarrow>
        state w' = FUNCTION_POINTER_ELEMENTS \<and> sequence w' = sequence w \<and> subSequence w' = 0
        \<and> committed (bufferQueue w')
          = committed (bufferQueue w)
            @ varint (tbl_signature (functionPointerTables (assembly w) ! sequence w))
            @ varint (length (elements (functionPointerTables (assembly w) ! sequence w))))
     \<and> (runStep T w = Inl (e, w') \<longrightarrow>
        sequence w' = sequence w \<and> committed (bufferQueue w') = committed (bufferQueue w))"
  using assms
  by (auto simp: runStep_def returning_Inr returning_Inl andThen_Inr andThen_Inl
        writeFunctionPointerTables_def Let_def writeVarint_def
        dest!: committing_Inr committing_Inl)

lemma table_elements_step:
  assumes "state w = FUNCTION_POINTER_ELEMENTS" and "staged (bufferQueue w) = []"
    and "sequence w < length (functionPointerTables (assembly w))"
  shows "(runStep T w = Inr (w', b) \<longrightarrow>
        state w' = FUNCTION_POINTER_TABLES \<and> sequence w' = sequence w + 1
        \<and> committed (bufferQueue w')
          = committed (bufferQueue w)
            @ concat (map varint (drop (subSequence w)
                (elements (functionPointerTables (assembly w) ! sequence w)))))
     \<and> (runStep T w = Inl (e, w') \<longrightarrow>
        sequence w' = sequence w \<and> subSequence w \<le> subSequence w'
        \<and> subSequence w' < length (elements (functionPointerTables (assembly w) ! sequence w))
        \<and> committed (bufferQueue w')
          = committed (bufferQueue w)
            @ concat (map varint (take (subSequence w' - subSequence w) (drop (subSequence w)
                (elements (functionPointerTables (assembly w) ! sequence w))))))"
proof -
  let ?els = "elements (functionPointerTables (assembly w) ! sequence w)"
  have r: "runStep T w
      = returning (andThen (writeElements ?els w)
          (\<lambda>w'. w'\<lparr>state := FUNCTION_POINTER_TABLES, sequence := sequence w' + 1\<rparr>))"
    using assms by (simp add: runStep_def writeFunctionPointerElements_def)
  show ?thesis
  proof (intro conjI impI)
    assume a: "runStep T w = Inr (w', b)"
    then obtain w1 where w1: "writeElements ?els w = Inr w1"
      and w': "w' = w1\<lparr>state := FUNCTION_POINTER_TABLES, sequence := sequence w1 + 1\<rparr>"
      by (auto simp: r returning_Inr andThen_Inr)
    from writeElements_frame[OF disjI1[OF w1]] have s: "sequence w1 = sequence w" by simp
    from writeElements_commits[OF assms(2), of ?els w1 e] w1
    have c: "committed (bufferQueue w1)
          = committed (bufferQueue w) @ concat (map varint (drop (subSequence w) ?els))"
      by simp
    show "state w' = FUNCTION_POINTER_TABLES" by (simp add: w')
    show "sequence w' = sequence w + 1" by (simp add: w' s)
    show "committed (bufferQueue w')
          = committed (bufferQueue w) @ concat (map varint (drop (subSequence w) ?els))"
      by (simp add: w' c)
  next
    assume a: "runStep T w = Inl (e, w')"
    then have w1: "writeElements ?els w = Inl (e, w')"
      by (simp add: r returning_Inl andThen_Inl)
    from writeElements_frame[OF disjI2[OF w1]] show "sequence w' = sequence w" by simp
    from writeElements_commits[OF assms(2), of ?els w' e] w1
    show "subSequence w \<le> subSequence w'" "subSequence w' < length ?els"
      "committed (bufferQueue w')
          = committed (bufferQueue w)
            @ concat (map varint (take (subSequence w' - subSequence w) (drop (subSequence w) ?els)))"
      by simp_all
  qed
qed

text \<open>No step, no call of \<^verbatim>\<open>_process\<close> and no event moves the writer back to an earlier section.\<close>

lemma runStep_returned:
  "runStep T w = Inr (w', True) \<Longrightarrow> state w' = state w"
  by (cases "state w")
     (auto simp: runStep_def returning_Inr writeFunctionDefinitions_def finish_def Let_def
           split: if_splits sum.splits prod.splits dest!: committing_Inr)

lemma rank_follows: "s' \<in> set (follows s) \<Longrightarrow> rank s' \<le> rank s"
  by (cases s) auto

lemma process_loop_rank: "rank (state (process_loop T w)) \<le> rank (state w)"
proof (induction T w rule: process_loop.induct)
  case (1 T w)
  show ?case
  proof (cases "runStep T w")
    case (Inr x)
    obtain w' returned where x: "x = (w', returned)" by (cases x)
    show ?thesis
    proof (cases returned)
      case True
      with Inr x runStep_returned[of T w w'] show ?thesis
        by (subst process_loop.simps) simp
    next
      case False
      from Inr x False runStep_returns[of T w w'] have "rank (state w') \<le> rank (state w)"
        by (auto intro: rank_follows)
      moreover from "1.IH"(2)[OF Inr x[symmetric]] False
      have "rank (state (process_loop T w')) \<le> rank (state w')" by simp
      moreover have "process_loop T w = process_loop T w'"
        using Inr x False by (subst process_loop.simps) simp
      ultimately show ?thesis by simp
    qed
  next
    case (Inl x)
    obtain e w' where x: "x = (e, w')" by (cases x)
    from runStep_throws[of T w e w'] Inl x have s: "state w' = state w" by simp
    show ?thesis
    proof (cases "e = E_MORE")
      case True
      with Inl x s show ?thesis
        by (subst process_loop.simps) (simp add: Let_def)
    next
      case False
      have "process_loop T w = process_loop T (w'\<lparr>errors := errors w' @ [e], state := ERROR\<rparr>)"
        using Inl x False by (subst process_loop.simps) simp
      moreover from "1.IH"(1)[OF Inl x[symmetric] False]
      have "rank (state (process_loop T (w'\<lparr>errors := errors w' @ [e], state := ERROR\<rparr>))) \<le> 0"
        by simp
      ultimately show ?thesis by simp
    qed
  qed
qed

lemma events_rank:
  "rank (state (read T n w)) \<le> rank (state w)"
  "rank (state (astEnd T w)) \<le> rank (state w)"
  "rank (state (astData chunk w)) \<le> rank (state w)"
  "rank (state (astError err w)) \<le> rank (state w)"
proof -
  have p: "rank (state (process T v)) \<le> rank (state v)" for v
    using process_loop_rank[of T v] by (simp add: process_def)
  show r: "rank (state (read T n w)) \<le> rank (state w)" for n w
    using p[of "w\<lparr>bufferQueue := push (nat n) (bufferQueue w)\<rparr>"] by (simp add: read_def)
  show "rank (state (astEnd T w)) \<le> rank (state w)"
    using r[of "lastSwallowedRead w" "w\<lparr>astWriter := None, sequence := sequence w + 1\<rparr>"]
    by (simp add: astEnd_def Let_def)
  show "rank (state (astData chunk w)) \<le> rank (state w)" by (simp add: astData_def)
  show "rank (state (astError err w)) \<le> rank (state w)" by (simp add: astError_def)
qed

text \<open>
  The function definitions. The bytes of a definition's header of local counts; the step
  of FUNCTION_DEFINITIONS commits the header of definition \<^verbatim>\<open>this.sequence\<close> and starts
  the body writer on that definition, and leaves for EXPORT when \<^verbatim>\<open>this.sequence\<close> has
  reached the size of the declaration pool.
\<close>

definition definitionHeader :: "Types \<Rightarrow> FunctionDefinition \<Rightarrow> byte list" where
  "definitionHeader T d =
     (case countVars (variables d) 0 0 0 of
        Inl e \<Rightarrow> []
      | Inr (nI32Vars, nF32Vars, nF64Vars) \<Rightarrow>
          staged (writeVarCounts T nI32Vars nF32Vars nF64Vars new_BufferQueue))"

text \<open>The states whose step runs over a pool from its first entry.\<close>

fun startsAtZero :: "State \<Rightarrow> bool" where
  "startsAtZero CONSTANTS_I32 = True"
| "startsAtZero CONSTANTS_F32 = True"
| "startsAtZero CONSTANTS_F64 = True"
| "startsAtZero SIGNATURES = True"
| "startsAtZero FUNCTION_IMPORTS = True"
| "startsAtZero FUNCTION_DECLARATIONS = True"
| "startsAtZero FUNCTION_POINTER_TABLES = True"
| "startsAtZero FUNCTION_DEFINITIONS = True"
| "startsAtZero _ = False"

lemma writeVarCounts_appends:
  "writeVarCounts T a b c q
     = q\<lparr>staged := staged q @ staged (writeVarCounts T a b c new_BufferQueue)\<rparr>"
  by (simp add: writeVarCounts_def Let_def writeUInt8_def writeVarint_def new_BufferQueue_def)

lemma definitions_step:
  assumes "state w = FUNCTION_DEFINITIONS" and "staged (bufferQueue w) = []"
  shows "(sequence w < length (functionDeclarations (assembly w)) \<longrightarrow>
          (runStep T w = Inr (w', b) \<longrightarrow>
             b \<and> state w' = FUNCTION_DEFINITIONS \<and> sequence w' = sequence w
             \<and> sequence w < length (functionDefinitions (assembly w))
             \<and> astWriter w' = Some (functionDefinitions (assembly w) ! sequence w)
             \<and> committed (bufferQueue w')
               = committed (bufferQueue w)
                 @ definitionHeader T (functionDefinitions (assembly w) ! sequence w))
          \<and> (runStep T w = Inl (e, w') \<longrightarrow>
             sequence w' = sequence w \<and> astWriter w' = astWriter w
             \<and> committed (bufferQueue w') = committed (bufferQueue w)))
     \<and> (\<not> sequence w < length (functionDeclarations (assembly w)) \<longrightarrow>
          runStep T w = Inr (w\<lparr>state := EXPORT\<rparr>, False))"
proof -
  have h: "committed (writeVarCounts T a b c (bufferQueue w)) = committed (bufferQueue w)
      \<and> staged (writeVarCounts T a b c (bufferQueue w))
        = staged (writeVarCounts T a b c new_BufferQueue)" for a b c
    using assms(2) writeVarCounts_appends[of T a b c "bufferQueue w"] by simp
  show ?thesis
    using assms(1)
    by (auto simp: runStep_def writeFunctionDefinitions_def Let_def definitionHeader_def h
             split: if_splits sum.splits prod.splits
             dest!: committing_Inr committing_Inl)
qed

text \<open>
  From FUNCTION_DEFINITIONS on, \<^verbatim>\<open>_process\<close> never writes \<^verbatim>\<open>this.sequence\<close>, and the
  only body writer it starts is that of the definition of index \<^verbatim>\<open>this.sequence\<close>.
\<close>

lemma late_steps:
  assumes "rank (state w) \<le> 3"
  shows "(runStep T w = Inr (w', b) \<longrightarrow>
          sequence w' = sequence w \<and> assembly w' = assembly w \<and> rank (state w') \<le> 3
          \<and> (astWriter w' = astWriter w \<and> (b \<longrightarrow> state w \<noteq> FUNCTION_DEFINITIONS)
             \<or> b \<and> state w = FUNCTION_DEFINITIONS \<and> state w' = FUNCTION_DEFINITIONS
               \<and> sequence w < length (functionDeclarations (assembly w))
               \<and> sequence w < length (functionDefinitions (assembly w))
               \<and> astWriter w' = Some (functionDefinitions (assembly w) ! sequence w)))
     \<and> (runStep T w = Inl (e, w') \<longrightarrow>
          sequence w' = sequence w \<and> assembly w' = assembly w \<and> astWriter w' = astWriter w)"
  using assms
  by (cases "state w")
     (auto simp: runStep_def returning_Inr returning_Inl andThen_Inr andThen_Inl
             writeFunctionDefinitions_def writeExport_def finish_def Let_def
           split: if_splits sum.splits prod.splits Export.splits
           dest!: committing_Inr committing_Inl)

lemma process_loop_definitions:
  "rank (state w) \<le> 3 \<Longrightarrow> astWriter w = None \<Longrightarrow>
     sequence (process_loop T w) = sequence w
     \<and> (astWriter (process_loop T w) = None
        \<or> state w = FUNCTION_DEFINITIONS \<and> state (process_loop T w) = FUNCTION_DEFINITIONS
          \<and> sequence w < length (functionDeclarations (assembly w))
          \<and> sequence w < length (functionDefinitions (assembly w))
          \<and> astWriter (process_loop T w) = Some (functionDefinitions (assembly w) ! sequence w))"
proof (induction T w rule: process_loop.induct)
  case (1 T w)
  show ?case
  proof (cases "runStep T w")
    case (Inr x)
    obtain w' returned where x: "x = (w', returned)" by (cases x)
    note l = late_steps[OF "1.prems"(1), of T w' returned, THEN conjunct1, rule_format, OF Inr[unfolded x]]
    show ?thesis
    proof (cases returned)
      case True
      have "process_loop T w = w'"
        using Inr x True by (subst process_loop.simps) simp
      with l True "1.prems"(2) show ?thesis by auto
    next
      case False
      have p: "process_loop T w = process_loop T w'"
        using Inr x False by (subst process_loop.simps) simp
      from l False "1.prems"(2) have a: "astWriter w' = None" by auto
      from runStep_returns[of T w w'] Inr x False have "state w' \<in> set (follows (state w))"
        by simp
      with "1.prems"(1) have n: "state w' \<noteq> FUNCTION_DEFINITIONS"
        by (cases "state w") auto
      from l have r: "rank (state w') \<le> 3" by simp
      from "1.IH"(2)[OF Inr x[symmetric] _ r a] False n l show ?thesis
        by (simp add: p)
    qed
  next
    case (Inl x)
    obtain e w' where x: "x = (e, w')" by (cases x)
    note l = late_steps[OF "1.prems"(1), of T w' False e, THEN conjunct2, rule_format, OF Inl[unfolded x]]
    show ?thesis
    proof (cases "e = E_MORE")
      case True
      with Inl x l "1.prems"(2) show ?thesis
        by (subst (1 2 3 4) process_loop.simps) (simp add: Let_def)
    next
      case False
      let ?w = "w'\<lparr>errors := errors w' @ [e], state := ERROR\<rparr>"
      have p: "process_loop T w = process_loop T ?w"
        using Inl x False by (subst process_loop.simps) simp
      from "1.IH"(1)[OF Inl x[symmetric] False] l "1.prems"(2) show ?thesis
        by (simp add: p)
    qed
  qed
qed

lemma astEnd_next:
  assumes "state w = FUNCTION_DEFINITIONS"
  shows "sequence (astEnd T w) = sequence w + 1
     \<and> (astWriter (astEnd T w) = None
        \<or> state (astEnd T w) = FUNCTION_DEFINITIONS
          \<and> sequence w + 1 < length (functionDeclarations (assembly w))
          \<and> sequence w + 1 < length (functionDefinitions (assembly w))
          \<and> astWriter (astEnd T w)
            = Some (functionDefinitions (assembly w) ! (sequence w + 1)))"
proof (cases "lastSwallowedRead w \<le> 0")
  case True
  then show ?thesis by (simp add: astEnd_def read_def Let_def)
next
  case False
  let ?w = "w\<lparr>astWriter := None, sequence := sequence w + 1,
                bufferQueue := push (nat (lastSwallowedRead w)) (bufferQueue w)\<rparr>"
  have e: "astEnd T w = process_loop T ?w"
    using False assms by (simp add: astEnd_def read_def process_def Let_def)
  from process_loop_definitions[of ?w T] assms show ?thesis
    by (simp add: e)
qed

lemma section_starts:
  assumes "runStep T w = Inr (w', b)" and "state w' \<noteq> state w"
  shows "(startsAtZero (state w') \<and> state w \<noteq> FUNCTION_POINTER_ELEMENTS \<longrightarrow> sequence w' = 0)
     \<and> (state w' = GLOBAL_VARIABLES \<longrightarrow>
          sequence w'
            = scan (globalVariables (assembly w)) I32 0
              + scan (globalVariables (assembly w)) F32 (scan (globalVariables (assembly w)) I32 0)
              + scan (globalVariables (assembly w)) F64
                  (scan (globalVariables (assembly w)) I32 0
                   + scan (globalVariables (assembly w)) F32
                       (scan (globalVariables (assembly w)) I32 0)))"
  using assms
  by (cases "state w")
     (auto simp: runStep_def returning_Inr andThen_Inr step_defs Let_def finish_def
           split: if_splits sum.splits prod.splits Export.splits
           dest!: committing_Inr)

text \<open>A step only adds to the committed bytes; the last step pushes them all.\<close>

lemma step_appends:
  assumes "staged (bufferQueue w) = []" and "runStep T w = Inr (w', b)"
    and "state w \<noteq> END" and "state w \<noteq> ERROR"
  shows "\<exists>bytes. committed (bufferQueue w') = committed (bufferQueue w) @ bytes"
proof (cases "poolState (state w)")
  case True
  from pool_step_commits[OF True assms(1), of T w' b E_MORE] assms(2) show ?thesis by blast
next
  case False
  show ?thesis
  proof (cases "state w = FUNCTION_POINTER_ELEMENTS")
    case True
    show ?thesis
    proof (cases "sequence w < length (functionPointerTables (assembly w))")
      case s: True
      from table_elements_step[OF True assms(1) s, of T w' b E_MORE] assms(2) show ?thesis by blast
    next
      case s: False
      with True assms(2) show ?thesis
        by (simp add: runStep_def returning_def writeFunctionPointerElements_def)
    qed
  next
    case ne: False
    from False ne assms show ?thesis
      by (cases "state w")
         (auto simp: runStep_def returning_Inr andThen_Inr step_defs Let_def queue_defs
                 writeVarCounts_def writeUInt8_def
               split: if_splits sum.splits prod.splits Export.splits
               dest!: committing_Inr writeExportPairs_Inr)
  qed
qed

text \<open>
  Claim C9. A step that returns with the loop going on leaves the writer in the next state
  of the fixed order (the two table states alternating, one table at a time); a step that
  makes \<^verbatim>\<open>_process\<close> return, and a step that throws, leave the state as it was; and no
  read and no event of the body writer ever moves the writer back to an earlier section.
  A section over a pool is entered at its first entry (the import names of the global
  variables at the first variable after the three zero-initialized groups). Within a
  section the step commits the pool entries from \<^verbatim>\<open>this.sequence\<close> on in index order:
  all that are left when it returns, and exactly those before the new \<^verbatim>\<open>this.sequence\<close>
  when it throws. The header of table \<open>i\<close> is committed by the header step at
  \<^verbatim>\<open>sequence = i\<close>; the element step commits the elements of table \<open>i\<close> in order and
  reaches the header step of table \<open>i + 1\<close> only when all of them have been committed.
  The step of the function definitions at \<^verbatim>\<open>sequence = i\<close> commits the header of
  definition \<open>i\<close>, starts the body writer on definition \<open>i\<close> and returns; a read is
  swallowed while the body writer is active; the end of the body writer moves the writer
  to \<^verbatim>\<open>sequence = i + 1\<close>, and the only body writer it can start is that of definition
  \<open>i + 1\<close>; the step leaves for EXPORT when no declaration is left. A step never drops or
  reorders what has been committed: it only adds to it; the chunks of the body writer are
  pushed as they come, and the step of END pushes all that is committed.
\<close>

theorem sections_in_fixed_order:
  assumes "staged (bufferQueue w) = []"
  shows
    "(runStep T w = Inr (w', False) \<longrightarrow> state w' \<in> set (follows (state w)))
     \<and> (runStep T w = Inr (w', True) \<longrightarrow> state w' = state w)
     \<and> (runStep T w = Inl (e, w') \<longrightarrow> state w' = state w)
     \<and> rank (state (read T n w)) \<le> rank (state w)
     \<and> rank (state (astEnd T w)) \<le> rank (state w)
     \<and> rank (state (astError err w)) \<le> rank (state w)
     \<and> (poolState (state w) \<longrightarrow>
          (runStep T w = Inr (w', b) \<longrightarrow>
             committed (bufferQueue w')
               = committed (bufferQueue w)
                 @ concat (drop (sequence w) (sectionEntries T (assembly w) (state w))))
          \<and> (runStep T w = Inl (e, w') \<longrightarrow>
             sequence w \<le> sequence w'
             \<and> sequence w' < length (sectionEntries T (assembly w) (state w))
             \<and> committed (bufferQueue w')
               = committed (bufferQueue w)
                 @ concat (take (sequence w' - sequence w)
                     (drop (sequence w) (sectionEntries T (assembly w) (state w))))))
     \<and> (state w = FUNCTION_POINTER_TABLES
          \<and> sequence w < length (functionPointerTables (assembly w)) \<longrightarrow>
          (runStep T w = Inr (w', b) \<longrightarrow>
             state w' = FUNCTION_POINTER_ELEMENTS \<and> sequence w' = sequence w
             \<and> subSequence w' = 0
             \<and> committed (bufferQueue w')
               = committed (bufferQueue w)
                 @ varint (tbl_signature (functionPointerTables (assembly w) ! sequence w))
                 @ varint (length (elements (functionPointerTables (assembly w) ! sequence w))))
          \<and> (runStep T w = Inl (e, w') \<longrightarrow>
             sequence w' = sequence w \<and> committed (bufferQueue w') = committed (bufferQueue w)))
     \<and> (state w = FUNCTION_POINTER_ELEMENTS
          \<and> sequence w < length (functionPointerTables (assembly w)) \<longrightarrow>
          (runStep T w = Inr (w', b) \<longrightarrow>
             state w' = FUNCTION_POINTER_TABLES \<and> sequence w' = sequence w + 1
             \<and> committed (bufferQueue w')
               = committed (bufferQueue w)
                 @ concat (map varint (drop (subSequence w)
                     (elements (functionPointerTables (assembly w) ! sequence w)))))
          \<and> (runStep T w = Inl (e, w') \<longrightarrow>
             sequence w' = sequence w \<and> subSequence w \<le> subSequence w'
             \<and> subSequence w' < length (elements (functionPointerTables (assembly w) ! sequence w))
             \<and> committed (bufferQueue w')
               = committed (bufferQueue w)
                 @ concat (map varint (take (subSequence w' - subSequence w) (drop (subSequence w)
                     (elements (functionPointerTables (assembly w) ! sequence w)))))))
     \<and> (runStep T w = Inr (w', b) \<and> state w' \<noteq> state w \<longrightarrow>
          (startsAtZero (state w') \<and> state w \<noteq> FUNCTION_POINTER_ELEMENTS \<longrightarrow> sequence w' = 0)
          \<and> (state w' = GLOBAL_VARIABLES \<longrightarrow>
               sequence w'
                 = scan (globalVariables (assembly w)) I32 0
                   + scan (globalVariables (assembly w)) F32
                       (scan (globalVariables (assembly w)) I32 0)
                   + scan (globalVariables (assembly w)) F64
                       (scan (globalVariables (assembly w)) I32 0
                        + scan (globalVariables (assembly w)) F32
                            (scan (globalVariables (assembly w)) I32 0))))
     \<and> (state w = FUNCTION_DEFINITIONS \<longrightarrow>
          (sequence w < length (functionDeclarations (assembly w)) \<longrightarrow>
             (runStep T w = Inr (w', b) \<longrightarrow>
                b \<and> state w' = FUNCTION_DEFINITIONS \<and> sequence w' = sequence w
                \<and> sequence w < length (functionDefinitions (assembly w))
                \<and> astWriter w' = Some (functionDefinitions (assembly w) ! sequence w)
                \<and> committed (bufferQueue w')
                  = committed (bufferQueue w)
                    @ definitionHeader T (functionDefinitions (assembly w) ! sequence w))
             \<and> (runStep T w = Inl (e, w') \<longrightarrow>
                sequence w' = sequence w \<and> astWriter w' = astWriter w
                \<and> committed (bufferQueue w') = committed (bufferQueue w)))
          \<and> (\<not> sequence w < length (functionDeclarations (assembly w)) \<longrightarrow>
               runStep T w = Inr (w\<lparr>state := EXPORT\<rparr>, False))
          \<and> sequence (astEnd T w) = sequence w + 1
          \<and> (astWriter (astEnd T w) = None
             \<or> state (astEnd T w) = FUNCTION_DEFINITIONS
               \<and> sequence w + 1 < length (functionDeclarations (assembly w))
               \<and> sequence w + 1 < length (functionDefinitions (assembly w))
               \<and> astWriter (astEnd T w)
                 = Some (functionDefinitions (assembly w) ! (sequence w + 1))))
     \<and> (astWriter w \<noteq> None \<longrightarrow> read T n w = w\<lparr>lastSwallowedRead := n\<rparr>)
     \<and> (runStep T w = Inr (w', b) \<and> state w \<noteq> END \<and> state w \<noteq> ERROR \<longrightarrow>
          (\<exists>bytes. committed (bufferQueue w') = committed (bufferQueue w) @ bytes))
     \<and> (state w = END \<or> state w = ERROR \<longrightarrow>
          runStep T w
            = Inr (w\<lparr>pushed := pushed w @ committed (bufferQueue w),
                     bufferQueue := clear (bufferQueue w), ended := True\<rparr>, True))
     \<and> astData chunk w = w\<lparr>pushed := pushed w @ chunk\<rparr>"
proof -
  have a: "runStep T w = Inr (w', False) \<longrightarrow> state w' \<in> set (follows (state w))"
    using runStep_returns[of T w w'] by blast
  have b: "runStep T w = Inr (w', True) \<longrightarrow> state w' = state w"
    using runStep_returned[of T w w'] by blast
  have c: "runStep T w = Inl (e, w') \<longrightarrow> state w' = state w"
    using runStep_throws[of T w e w'] by blast
  note d = events_rank(1)[of T n w] events_rank(2)[of T w] events_rank(4)[of err w]
  have p: "poolState (state w) \<longrightarrow>
          (runStep T w = Inr (w', b) \<longrightarrow>
             committed (bufferQueue w')
               = committed (bufferQueue w)
                 @ concat (drop (sequence w) (sectionEntries T (assembly w) (state w))))
          \<and> (runStep T w = Inl (e, w') \<longrightarrow>
             sequence w \<le> sequence w'
             \<and> sequence w' < length (sectionEntries T (assembly w) (state w))
             \<and> committed (bufferQueue w')
               = committed (bufferQueue w)
                 @ concat (take (sequence w' - sequence w)
                     (drop (sequence w) (sectionEntries T (assembly w) (state w)))))"
    using pool_step_commits[OF _ assms, of T w' b e] by blast
  have h: "state w = FUNCTION_POINTER_TABLES
          \<and> sequence w < length (functionPointerTables (assembly w)) \<longrightarrow>
          (runStep T w = Inr (w', b) \<longrightarrow>
             state w' = FUNCTION_POINTER_ELEMENTS \<and> sequence w' = sequence w
             \<and> subSequence w' = 0
             \<and> committed (bufferQueue w')
               = committed (bufferQueue w)
                 @ varint (tbl_signature (functionPointerTables (assembly w) ! sequence w))
                 @ varint (length (elements (functionPointerTables (assembly w) ! sequence w))))
          \<and> (runStep T w = Inl (e, w') \<longrightarrow>
             sequence w' = sequence w \<and> committed (bufferQueue w') = committed (bufferQueue w))"
    using table_header_step[OF _ assms, of T w' b e] by blast
  have l: "state w = FUNCTION_POINTER_ELEMENTS
          \<and> sequence w < length (functionPointerTables (assembly w)) \<longrightarrow>
          (runStep T w = Inr (w', b) \<longrightarrow>
             state w' = FUNCTION_POINTER_TABLES \<and> sequence w' = sequence w + 1
             \<and> committed (bufferQueue w')
               = committed (bufferQueue w)
                 @ concat (map varint (drop (subSequence w)
                     (elements (functionPointerTables (assembly w) ! sequence w)))))
          \<and> (runStep T w = Inl (e, w') \<longrightarrow>
             sequence w' = sequence w \<and> subSequence w \<le> subSequence w'
             \<and> subSequence w' < length (elements (functionPointerTables (assembly w) ! sequence w))
             \<and> committed (bufferQueue w')
               = committed (bufferQueue w)
                 @ concat (map varint (take (subSequence w' - subSequence w) (drop (subSequence w)
                     (elements (functionPointerTables (assembly w) ! sequence w))))))"
    using table_elements_step[OF _ assms, of T w' b e] by blast
  have z: "runStep T w = Inr (w', b) \<and> state w' \<noteq> state w \<longrightarrow>
          (startsAtZero (state w') \<and> state w \<noteq> FUNCTION_POINTER_ELEMENTS \<longrightarrow> sequence w' = 0)
          \<and> (state w' = GLOBAL_VARIABLES \<longrightarrow>
               sequence w'
                 = scan (globalVariables (assembly w)) I32 0
                   + scan (globalVariables (assembly w)) F32
                       (scan (globalVariables (assembly w)) I32 0)
                   + scan (globalVariables (assembly w)) F64
                       (scan (globalVariables (assembly w)) I32 0
                        + scan (globalVariables (assembly w)) F32
                            (scan (globalVariables (assembly w)) I32 0)))"
    using section_starts[of T w w' b] by blast
  have f: "state w = FUNCTION_DEFINITIONS \<longrightarrow>
          (sequence w < length (functionDeclarations (assembly w)) \<longrightarrow>
             (runStep T w = Inr (w', b) \<longrightarrow>
                b \<and> state w' = FUNCTION_DEFINITIONS \<and> sequence w' = sequence w
                \<and> sequence w < length (functionDefinitions (assembly w))
                \<and> astWriter w' = Some (functionDefinitions (assembly w) ! sequence w)
                \<and> committed (bufferQueue w')
                  = committed (bufferQueue w)
                    @ definitionHeader T (functionDefinitions (assembly w) ! sequence w))
             \<and> (runStep T w = Inl (e, w') \<longrightarrow>
                sequence w' = sequence w \<and> astWriter w' = astWriter w
                \<and> committed (bufferQueue w') = committed (bufferQueue w)))
          \<and> (\<not> sequence w < length (functionDeclarations (assembly w)) \<longrightarrow>
               runStep T w = Inr (w\<lparr>state := EXPORT\<rparr>, False))
          \<and> sequence (astEnd T w) = sequence w + 1
          \<and> (astWriter (astEnd T w) = None
             \<or> state (astEnd T w) = FUNCTION_DEFINITIONS
               \<and> sequence w + 1 < length (functionDeclarations (assembly w))
               \<and> sequence w + 1 < length (functionDefinitions (assembly w))
               \<and> astWriter (astEnd T w)
                 = Some (functionDefinitions (assembly w) ! (sequence w + 1)))"
    using definitions_step[OF _ assms, of T w' b e] astEnd_next[of w T] by blast
  have s: "astWriter w \<noteq> None \<longrightarrow> read T n w = w\<lparr>lastSwallowedRead := n\<rparr>"
    by (simp add: read_def)
  have g: "runStep T w = Inr (w', b) \<and> state w \<noteq> END \<and> state w \<noteq> ERROR \<longrightarrow>
          (\<exists>bytes. committed (bufferQueue w') = committed (bufferQueue w) @ bytes)"
    using step_appends[OF assms, of T w' b] by blast
  have k: "state w = END \<or> state w = ERROR \<longrightarrow>
          runStep T w
            = Inr (w\<lparr>pushed := pushed w @ committed (bufferQueue w),
                     bufferQueue := clear (bufferQueue w), ended := True\<rparr>, True)"
    by (auto simp: runStep_def finish_def toBuffer_def)
  have y: "astData chunk w = w\<lparr>pushed := pushed w @ chunk\<rparr>"
    by (simp add: astData_def)
  from a b c d p h l z f s g k y show ?thesis by (intro conjI)
qed

text \<open>
  An assembly with two I32 constants and two function pointer tables, and a writer with
  a given amount of room.
\<close>

definition samplePools :: Assembly where
  "samplePools =
     sampleAssembly
       \<lparr> constantsI32 := [1, 300],
         functionPointerTables :=
           [\<lparr> tbl_signature = 0, elements = [5, 6] \<rparr>, \<lparr> tbl_signature = 1, elements = [7] \<rparr>] \<rparr>"

definition withRoom :: "nat \<Rightarrow> Writer \<Rightarrow> Writer" where
  "withRoom n w = w\<lparr>bufferQueue := \<lparr> room = n, committed = [], staged = [] \<rparr>\<rparr>"

lemmas eval_defs = runStep_def returning_def andThen_def committing_def commit_def
  writerAt_def withRoom_def samplePools_def sampleAssembly_def new_Writer_def new_BufferQueue_def push_def
  writeVarint_def varint.simps writePool.simps writeElements.simps
  writeConstantsI32_def writeFunctionPointerTables_def writeFunctionPointerElements_def Let_def

text \<open>
  The constants step with room for both constants and with room for the first only; the
  header step of table 0; the element step of table 0 with room for both elements and
  with room for the first only. The step of the function definitions at the first of two
  definitions; the end of its body writer after a swallowed read of 8 bytes, which starts
  the second definition; and the step when both definitions are done.
\<close>

theorem sections_in_fixed_order_witness:
  "runStep sampleTypes (writerAt CONSTANTS_I32 samplePools)
     = Inr ((writerAt CONSTANTS_I32 samplePools)
              \<lparr>bufferQueue := \<lparr>room = 64, committed = [1, 172, 2], staged = []\<rparr>,
               state := CONSTANTS_F32\<rparr>, False)
   \<and> CONSTANTS_F32 \<in> set (follows CONSTANTS_I32)
   \<and> runStep sampleTypes (withRoom 2 (writerAt CONSTANTS_I32 samplePools))
     = Inl (E_MORE, (writerAt CONSTANTS_I32 samplePools)
              \<lparr>bufferQueue := \<lparr>room = 2, committed = [1], staged = [172, 2]\<rparr>,
               sequence := 1\<rparr>)
   \<and> runStep sampleTypes (writerAt FUNCTION_POINTER_TABLES samplePools)
     = Inr ((writerAt FUNCTION_POINTER_TABLES samplePools)
              \<lparr>bufferQueue := \<lparr>room = 64, committed = [0, 2], staged = []\<rparr>,
               state := FUNCTION_POINTER_ELEMENTS\<rparr>, False)
   \<and> runStep sampleTypes (writerAt FUNCTION_POINTER_ELEMENTS samplePools)
     = Inr ((writerAt FUNCTION_POINTER_ELEMENTS samplePools)
              \<lparr>bufferQueue := \<lparr>room = 64, committed = [5, 6], staged = []\<rparr>,
               state := FUNCTION_POINTER_TABLES, sequence := 1, subSequence := 2\<rparr>, False)
   \<and> runStep sampleTypes (withRoom 1 (writerAt FUNCTION_POINTER_ELEMENTS samplePools))
     = Inl (E_MORE, (writerAt FUNCTION_POINTER_ELEMENTS samplePools)
              \<lparr>bufferQueue := \<lparr>room = 1, committed = [5], staged = [6]\<rparr>,
               subSequence := 1\<rparr>)
   \<and> runStep sampleTypes (writerAt FUNCTION_DEFINITIONS sampleDefinitions)
     = Inr ((writerAt FUNCTION_DEFINITIONS sampleDefinitions)
              \<lparr>bufferQueue := \<lparr>room = 64, committed = [131], staged = []\<rparr>,
               astWriter := Some (new_FunctionDefinition sampleDeclaration 3 0 0 None None)\<rparr>, True)
   \<and> definitionHeader sampleTypes (new_FunctionDefinition sampleDeclaration 3 0 0 None None) = [131]
   \<and> read sampleTypes 8
       ((writerAt FUNCTION_DEFINITIONS sampleDefinitions)
          \<lparr>bufferQueue := \<lparr>room = 64, committed = [131], staged = []\<rparr>,
           astWriter := Some (new_FunctionDefinition sampleDeclaration 3 0 0 None None)\<rparr>)
     = (writerAt FUNCTION_DEFINITIONS sampleDefinitions)
          \<lparr>bufferQueue := \<lparr>room = 64, committed = [131], staged = []\<rparr>,
           astWriter := Some (new_FunctionDefinition sampleDeclaration 3 0 0 None None),
           lastSwallowedRead := 8\<rparr>
   \<and> astEnd sampleTypes
       ((writerAt FUNCTION_DEFINITIONS sampleDefinitions)
          \<lparr>bufferQueue := \<lparr>room = 64, committed = [131], staged = []\<rparr>,
           astWriter := Some (new_FunctionDefinition sampleDeclaration 3 0 0 None None),
           lastSwallowedRead := 8\<rparr>)
     = (writerAt FUNCTION_DEFINITIONS sampleDefinitions)
          \<lparr>bufferQueue := \<lparr>room = 72, committed = [131, 3, 3, 1], staged = []\<rparr>,
           astWriter := Some (new_FunctionDefinition sampleDeclaration 3 1 0 None None),
           lastSwallowedRead := 8, sequence := 1\<rparr>
   \<and> definitionHeader sampleTypes (new_FunctionDefinition sampleDeclaration 3 1 0 None None)
     = [3, 3, 1]
   \<and> runStep sampleTypes ((writerAt FUNCTION_DEFINITIONS sampleDefinitions)\<lparr>sequence := 2\<rparr>)
     = Inr ((writerAt FUNCTION_DEFINITIONS sampleDefinitions)\<lparr>sequence := 2, state := EXPORT\<rparr>, False)"
  using sections_in_fixed_order
          [of "writerAt CONSTANTS_I32 samplePools" sampleTypes
              "(writerAt CONSTANTS_I32 samplePools)
                 \<lparr>bufferQueue := \<lparr>room = 64, committed = [1, 172, 2], staged = []\<rparr>,
                  state := CONSTANTS_F32\<rparr>"
              E_MORE 1 E_MORE False]
        sections_in_fixed_order
          [of "withRoom 2 (writerAt CONSTANTS_I32 samplePools)" sampleTypes
              "(writerAt CONSTANTS_I32 samplePools)
                 \<lparr>bufferQueue := \<lparr>room = 2, committed = [1], staged = [172, 2]\<rparr>,
                  sequence := 1\<rparr>"
              E_MORE 1 E_MORE False]
        sections_in_fixed_order
          [of "writerAt FUNCTION_POINTER_TABLES samplePools" sampleTypes
              "(writerAt FUNCTION_POINTER_TABLES samplePools)
                 \<lparr>bufferQueue := \<lparr>room = 64, committed = [0, 2], staged = []\<rparr>,
                  state := FUNCTION_POINTER_ELEMENTS\<rparr>"
              E_MORE 1 E_MORE False]
        sections_in_fixed_order
          [of "writerAt FUNCTION_POINTER_ELEMENTS samplePools" sampleTypes
              "(writerAt FUNCTION_POINTER_ELEMENTS samplePools)
                 \<lparr>bufferQueue := \<lparr>room = 64, committed = [5, 6], staged = []\<rparr>,
                  state := FUNCTION_POINTER_TABLES, sequence := 1, subSequence := 2\<rparr>"
              E_MORE 1 E_MORE False]
        sections_in_fixed_order
          [of "withRoom 1 (writerAt FUNCTION_POINTER_ELEMENTS samplePools)" sampleTypes
              "(writerAt FUNCTION_POINTER_ELEMENTS samplePools)
                 \<lparr>bufferQueue := \<lparr>room = 1, committed = [5], staged = [6]\<rparr>,
                  subSequence := 1\<rparr>"
              E_MORE 1 E_MORE False]
        sections_in_fixed_order
          [of "writerAt FUNCTION_DEFINITIONS sampleDefinitions" sampleTypes
              "(writerAt FUNCTION_DEFINITIONS sampleDefinitions)
                 \<lparr>bufferQueue := \<lparr>room = 64, committed = [131], staged = []\<rparr>,
                  astWriter := Some (new_FunctionDefinition sampleDeclaration 3 0 0 None None)\<rparr>"
              E_MORE 8 E_MORE True]
        sections_in_fixed_order
          [of "(writerAt FUNCTION_DEFINITIONS sampleDefinitions)
                 \<lparr>bufferQueue := \<lparr>room = 64, committed = [131], staged = []\<rparr>,
                  astWriter := Some (new_FunctionDefinition sampleDeclaration 3 0 0 None None)\<rparr>"
              sampleTypes
              "(writerAt FUNCTION_DEFINITIONS sampleDefinitions)
                 \<lparr>bufferQueue := \<lparr>room = 64, committed = [131], staged = []\<rparr>,
                  astWriter := Some (new_FunctionDefinition sampleDeclaration 3 0 0 None None)\<rparr>"
              E_MORE 8 E_MORE True]
        sections_in_fixed_order
          [of "(writerAt FUNCTION_DEFINITIONS sampleDefinitions)
                 \<lparr>bufferQueue := \<lparr>room = 64, committed = [131], staged = []\<rparr>,
                  astWriter := Some (new_FunctionDefinition sampleDeclaration 3 0 0 None None),
                  lastSwallowedRead := 8\<rparr>"
              sampleTypes
              "(writerAt FUNCTION_DEFINITIONS sampleDefinitions)
                 \<lparr>bufferQueue := \<lparr>room = 64, committed = [131], staged = []\<rparr>,
                  astWriter := Some (new_FunctionDefinition sampleDeclaration 3 0 0 None None),
                  lastSwallowedRead := 8\<rparr>"
              E_MORE 8 E_MORE True]
        sections_in_fixed_order
          [of "(writerAt FUNCTION_DEFINITIONS sampleDefinitions)\<lparr>sequence := 2\<rparr>" sampleTypes
              "(writerAt FUNCTION_DEFINITIONS sampleDefinitions)\<lparr>sequence := 2, state := EXPORT\<rparr>"
              E_MORE 8 E_MORE False]
  by (simp add: eval_defs sampleDefinitions_def writeFunctionDefinitions_def countVars_constructed
        definitionHeader_def writeVarCounts_def writeUInt8_def sampleTypes_fields
        astEnd_def read_def process_def process_loop.simps)

subsection \<open>Suspension on insufficient room\<close>

lemma writes_keep_committed:
  "committed (writeUInt8 v q) = committed q"
  "committed (writeUInt32LE v q) = committed q"
  "committed (writeVarint v q) = committed q"
  "committed (writeFloatLE v q) = committed q"
  "committed (writeDoubleLE v q) = committed q"
  "committed (writeCString s q) = committed q"
  "committed (writeVarCounts T a b c q) = committed q"
  by (simp_all add: queue_defs writeVarCounts_def Let_def)

lemma process_loop_suspends:
  assumes "runStep T w = Inl (E_MORE, w1)"
  shows "process_loop T w
     = w1\<lparr>pushed := pushed w1 @ committed (bufferQueue w1),
          bufferQueue :=
            (if committed (bufferQueue w1) = [] then (bufferQueue w1)\<lparr>staged := []\<rparr>
             else \<lparr> room = 0, committed = [], staged = [] \<rparr>)\<rparr>"
  using assms
  by (subst process_loop.simps) (simp add: Let_def reset_def toBuffer_def clear_def)

text \<open>
  Claim C5. When the step of the current state throws \<open>E_MORE\<close>, the call of
  \<^verbatim>\<open>_process\<close> ends there: it pushes exactly the bytes committed so far, leaves the state
  as it was, and leaves the queue without committed and without staged bytes, so that no
  pushed byte can be pushed again; nothing is ended and no error is emitted. The next read
  runs the loop again from the same state. What had been committed is, in a pool section,
  exactly the entries before the position at which the step will resume, in a table's
  element section likewise, and in every other section nothing of the failed batch. The
  statement holds for every pass of the loop, since the loop from any pass on is
  \<open>process_loop\<close> of the writer at that pass.
\<close>

theorem insufficient_room_suspends:
  assumes "runStep T w = Inl (E_MORE, w1)"
  shows
    "pushed (process_loop T w) = pushed w @ committed (bufferQueue w1)
     \<and> state (process_loop T w) = state w
     \<and> sequence (process_loop T w) = sequence w1
     \<and> subSequence (process_loop T w) = subSequence w1
     \<and> committed (bufferQueue (process_loop T w)) = []
     \<and> staged (bufferQueue (process_loop T w)) = []
     \<and> ended (process_loop T w) = ended w
     \<and> errors (process_loop T w) = errors w
     \<and> assembly (process_loop T w) = assembly w
     \<and> astWriter (process_loop T w) = astWriter w
     \<and> (0 < n \<and> astWriter w = None \<longrightarrow>
          read T n (process_loop T w)
            = process_loop T
                ((process_loop T w)
                   \<lparr>bufferQueue := push (nat n) (bufferQueue (process_loop T w))\<rparr>))
     \<and> (poolState (state w) \<and> staged (bufferQueue w) = [] \<longrightarrow>
          sequence w \<le> sequence w1
          \<and> sequence w1 < length (sectionEntries T (assembly w) (state w))
          \<and> committed (bufferQueue w1)
            = committed (bufferQueue w)
              @ concat (take (sequence w1 - sequence w)
                  (drop (sequence w) (sectionEntries T (assembly w) (state w)))))
     \<and> (state w = FUNCTION_POINTER_ELEMENTS \<and> staged (bufferQueue w) = []
          \<and> sequence w < length (functionPointerTables (assembly w)) \<longrightarrow>
          subSequence w \<le> subSequence w1
          \<and> subSequence w1 < length (elements (functionPointerTables (assembly w) ! sequence w))
          \<and> committed (bufferQueue w1)
            = committed (bufferQueue w)
              @ concat (map varint (take (subSequence w1 - subSequence w) (drop (subSequence w)
                  (elements (functionPointerTables (assembly w) ! sequence w))))))
     \<and> (\<not> poolState (state w) \<and> state w \<noteq> FUNCTION_POINTER_ELEMENTS \<longrightarrow>
          committed (bufferQueue w1) = committed (bufferQueue w))"
proof -
  note p = process_loop_suspends[OF assms]
  note t = runStep_throws[OF assms]
  from t have u: "pushed w1 = pushed w" "ended w1 = ended w" "errors w1 = errors w"
    "assembly w1 = assembly w" "astWriter w1 = astWriter w" "state w1 = state w"
    by (simp_all add: untouched_def)
  have r: "0 < n \<and> astWriter w = None \<longrightarrow>
          read T n (process_loop T w)
            = process_loop T
                ((process_loop T w)
                   \<lparr>bufferQueue := push (nat n) (bufferQueue (process_loop T w))\<rparr>)"
    using t u by (simp add: read_def process_def p)
  have pool: "poolState (state w) \<and> staged (bufferQueue w) = [] \<longrightarrow>
          sequence w \<le> sequence w1
          \<and> sequence w1 < length (sectionEntries T (assembly w) (state w))
          \<and> committed (bufferQueue w1)
            = committed (bufferQueue w)
              @ concat (take (sequence w1 - sequence w)
                  (drop (sequence w) (sectionEntries T (assembly w) (state w))))"
    using pool_step_commits[of w T w1 False E_MORE] assms by blast
  have els: "state w = FUNCTION_POINTER_ELEMENTS \<and> staged (bufferQueue w) = []
          \<and> sequence w < length (functionPointerTables (assembly w)) \<longrightarrow>
          subSequence w \<le> subSequence w1
          \<and> subSequence w1 < length (elements (functionPointerTables (assembly w) ! sequence w))
          \<and> committed (bufferQueue w1)
            = committed (bufferQueue w)
              @ concat (map varint (take (subSequence w1 - subSequence w) (drop (subSequence w)
                  (elements (functionPointerTables (assembly w) ! sequence w)))))"
    using table_elements_step[of w T w1 False E_MORE] assms by blast
  have single: "\<not> poolState (state w) \<and> state w \<noteq> FUNCTION_POINTER_ELEMENTS \<longrightarrow>
          committed (bufferQueue w1) = committed (bufferQueue w)"
    using assms
    by (cases "state w")
       (auto simp: runStep_def returning_Inl andThen_Inl step_defs Let_def writes_keep_committed
             split: if_splits sum.splits prod.splits Export.splits
             dest!: committing_Inl writeExportPairs_Inr writeExportPairs_Inl)
  show ?thesis
    using r pool els single by (simp add: p u)
qed

lemmas run_defs = read_def process_def finish_def reset_def toBuffer_def clear_def
  runStep_def returning_def andThen_def committing_def commit_def
  new_Writer_def new_BufferQueue_def push_def
  queue_defs bytes4LE_def bytes8LE_def cstring_def varint.simps
  writePool.simps writeElements.simps step_defs writeSignature_def writeFunctionImport_def
  writeImportName_def writeVarCounts_def scan_def
  ExportFormat_Default_def ExportFormat_Record_def Let_def sampleTypes_fields

text \<open>
  The constants step with room for two bytes: the first constant is pushed, the writer
  stays in CONSTANTS_I32 at entry 1 with an empty queue, and the next read emits the rest;
  the bytes are those of a run that was never short of room.
\<close>

theorem insufficient_room_suspends_witness:
  "pushed (process_loop sampleTypes (withRoom 2 (writerAt CONSTANTS_I32 samplePools))) = [1]
   \<and> state (process_loop sampleTypes (withRoom 2 (writerAt CONSTANTS_I32 samplePools)))
       = CONSTANTS_I32
   \<and> sequence (process_loop sampleTypes (withRoom 2 (writerAt CONSTANTS_I32 samplePools))) = 1
   \<and> bufferQueue (process_loop sampleTypes (withRoom 2 (writerAt CONSTANTS_I32 samplePools)))
       = \<lparr> room = 0, committed = [], staged = [] \<rparr>
   \<and> pushed (read sampleTypes 64
         (process_loop sampleTypes (withRoom 2 (writerAt CONSTANTS_I32 samplePools))))
       = [1, 172, 2, 0, 0, 0, 0, 0, 0, 0, 0, 0, 0, 2, 0, 2, 5, 6, 1, 1, 7, 0, 0]
   \<and> pushed (read sampleTypes 64 (withRoom 0 (writerAt CONSTANTS_I32 samplePools)))
       = [1, 172, 2, 0, 0, 0, 0, 0, 0, 0, 0, 0, 0, 2, 0, 2, 5, 6, 1, 1, 7, 0, 0]"
proof -
  let ?w = "withRoom 2 (writerAt CONSTANTS_I32 samplePools)"
  let ?w1 = "(writerAt CONSTANTS_I32 samplePools)
              \<lparr>bufferQueue := \<lparr>room = 2, committed = [1], staged = [172, 2]\<rparr>, sequence := 1\<rparr>"
  have step: "runStep sampleTypes ?w = Inl (E_MORE, ?w1)"
    by (simp add: eval_defs)
  note t = insufficient_room_suspends[OF step, of 64]
  have s: "pushed (process_loop sampleTypes ?w) = [1]"
    "state (process_loop sampleTypes ?w) = CONSTANTS_I32"
    "sequence (process_loop sampleTypes ?w) = 1"
    "committed (bufferQueue (process_loop sampleTypes ?w)) = []"
    "staged (bufferQueue (process_loop sampleTypes ?w)) = []"
    using t by (simp_all add: eval_defs)
  have q: "bufferQueue (process_loop sampleTypes ?w) = \<lparr> room = 0, committed = [], staged = [] \<rparr>"
    by (simp add: process_loop_suspends[OF step])
  have again: "process_loop sampleTypes ?w
      = (writerAt CONSTANTS_I32 samplePools)
          \<lparr>bufferQueue := \<lparr> room = 0, committed = [], staged = [] \<rparr>, sequence := 1, pushed := [1]\<rparr>"
    by (subst process_loop_suspends[OF step]) (simp add: eval_defs)
  have r1: "pushed (read sampleTypes 64 (process_loop sampleTypes ?w))
       = [1, 172, 2, 0, 0, 0, 0, 0, 0, 0, 0, 0, 0, 2, 0, 2, 5, 6, 1, 1, 7, 0, 0]"
    unfolding again
    by (simp add: run_defs process_loop.simps samplePools_def sampleAssembly_def writerAt_def)
  have r2: "pushed (read sampleTypes 64 (withRoom 0 (writerAt CONSTANTS_I32 samplePools)))
       = [1, 172, 2, 0, 0, 0, 0, 0, 0, 0, 0, 0, 0, 2, 0, 2, 5, 6, 1, 1, 7, 0, 0]"
    by (simp add: run_defs process_loop.simps samplePools_def sampleAssembly_def writerAt_def
          withRoom_def)
  from s q r1 r2 show ?thesis by simp
qed

subsection \<open>Encoding is not injective on the global variables\<close>

text \<open>
  Two assemblies that differ in their one global variable: an I32 variable bound to the
  import "a", and a zero-initialized I32 variable.
\<close>

definition importedGlobal :: Assembly where
  "importedGlobal =
     sampleAssembly\<lparr>globalVariables := [\<lparr> gv_type = I32, importName = Some ''a'' \<rparr>]\<rparr>"

definition zeroGlobal :: Assembly where
  "zeroGlobal =
     sampleAssembly\<lparr>globalVariables := [\<lparr> gv_type = I32, importName = None \<rparr>]\<rparr>"

text \<open>
  Whatever the values of the constants of \<^verbatim>\<open>types\<close>, the writer emits the same bytes
  for the two assemblies.
\<close>

lemma same_bytes_for_any_constants:
  "pushed (read T 64 (new_Writer importedGlobal)) = pushed (read T 64 (new_Writer zeroGlobal))
   \<and> ended (read T 64 (new_Writer importedGlobal))
   \<and> errors (read T 64 (new_Writer importedGlobal)) = []
   \<and> importedGlobal \<noteq> zeroGlobal"
  by (simp add: read_def process_def finish_def reset_def toBuffer_def clear_def
        runStep_def returning_def andThen_def committing_def commit_def
        new_Writer_def new_BufferQueue_def push_def
        queue_defs bytes4LE_def bytes8LE_def cstring_def varint.simps
        writePool.simps writeElements.simps step_defs writeSignature_def writeFunctionImport_def
        writeImportName_def writeVarCounts_def scan_def
        ExportFormat_Default_def ExportFormat_Record_def Let_def
        process_loop.simps importedGlobal_def zeroGlobal_def sampleAssembly_def)

text \<open>
  Claim C1, on the code. The assemblies \<open>importedGlobal\<close> and \<open>zeroGlobal\<close> differ in
  their one global variable: an I32 variable bound to the import "a", and a
  zero-initialized I32 variable. Both pools are in the mandated order. The writer emits
  the same bytes for both, ends the stream and reports no error: the imported variable is
  counted as zero-initialized and its name is never written, because the scan of
  \<^verbatim>\<open>_writeGlobalVariablesCount\<close> compares types only. No decoder can give back both
  assemblies from these bytes.
\<close>

theorem imported_global_written_as_zero:
  "mandatedOrder (globalVariables importedGlobal)
   \<and> mandatedOrder (globalVariables zeroGlobal)
   \<and> globalVariables importedGlobal \<noteq> globalVariables zeroGlobal
   \<and> pushed (read sampleTypes 64 (new_Writer importedGlobal))
       = [7, 0, 0, 0, 0, 0, 0, 0, 0, 0, 0, 0, 0, 0, 1, 0, 0, 0, 0, 0, 0, 0, 0, 0]
   \<and> pushed (read sampleTypes 64 (new_Writer zeroGlobal))
       = [7, 0, 0, 0, 0, 0, 0, 0, 0, 0, 0, 0, 0, 0, 1, 0, 0, 0, 0, 0, 0, 0, 0, 0]
   \<and> ended (read sampleTypes 64 (new_Writer importedGlobal))
   \<and> ended (read sampleTypes 64 (new_Writer zeroGlobal))
   \<and> errors (read sampleTypes 64 (new_Writer importedGlobal)) = []
   \<and> errors (read sampleTypes 64 (new_Writer zeroGlobal)) = []"
  by (simp add: run_defs process_loop.simps importedGlobal_def zeroGlobal_def sampleAssembly_def
        mandatedOrder_def groupIndex_def)

subsection \<open>No batch is left staged between steps\<close>

text \<open>
  A step that returns has committed all it staged, and every call of \<^verbatim>\<open>_process\<close>
  leaves the queue without staged bytes, however it ends. So a step always starts on a
  queue without staged bytes, as the statements above assume.
\<close>

lemma writePool_unstaged:
  "writePool entry pool w = Inr w' \<Longrightarrow> staged (bufferQueue w) = [] \<Longrightarrow>
     staged (bufferQueue w') = []"
proof (induction entry pool w rule: writePool.induct)
  case (1 entry pool w)
  show ?case
  proof (cases "sequence w < length pool")
    case False
    with "1.prems" show ?thesis by (auto simp: writePool.simps)
  next
    case True
    from "1.prems"(1) True obtain q w1 where
      e: "entry (pool ! sequence w) (bufferQueue w) = Inr q" and
      c: "committing w q = Inr w1" and
      r: "writePool entry pool (w1\<lparr>sequence := sequence w + 1\<rparr>) = Inr w'"
      by (subst (asm) writePool.simps) (auto split: sum.splits)
    from committing_Inr[OF c] have "staged (bufferQueue (w1\<lparr>sequence := sequence w + 1\<rparr>)) = []"
      by simp
    from "1.IH"[OF True e c r this] show ?thesis .
  qed
qed

lemma writeElements_unstaged:
  "writeElements els w = Inr w' \<Longrightarrow> staged (bufferQueue w) = [] \<Longrightarrow>
     staged (bufferQueue w') = []"
proof (induction els w rule: writeElements.induct)
  case (1 els w)
  show ?case
  proof (cases "subSequence w < length els")
    case False
    with "1.prems" show ?thesis by (auto simp: writeElements.simps)
  next
    case True
    from "1.prems"(1) True obtain w1 where
      c: "committing w (writeVarint (els ! subSequence w) (bufferQueue w)) = Inr w1" and
      r: "writeElements els (w1\<lparr>subSequence := subSequence w + 1\<rparr>) = Inr w'"
      by (subst (asm) writeElements.simps) (auto split: sum.splits)
    from committing_Inr[OF c] have "staged (bufferQueue (w1\<lparr>subSequence := subSequence w + 1\<rparr>)) = []"
      by simp
    from "1.IH"[OF True c r this] show ?thesis .
  qed
qed

lemma runStep_unstaged:
  assumes "runStep T w = Inr (w', b)" and "staged (bufferQueue w) = []"
  shows "staged (bufferQueue w') = []"
  using assms
  by (cases "state w")
     (auto simp: runStep_def returning_Inr andThen_Inr step_defs Let_def finish_def clear_def
           split: if_splits sum.splits prod.splits Export.splits
           dest!: committing_Inr
           dest: writePool_unstaged writeElements_unstaged)

lemma process_loop_unstaged: "staged (bufferQueue (process_loop T w)) = []"
proof (induction T w rule: process_loop.induct)
  case (1 T w)
  show ?case
  proof (cases "runStep T w")
    case (Inr x)
    obtain w' returned where x: "x = (w', returned)" by (cases x)
    show ?thesis
    proof (cases returned)
      case True
      have "staged (bufferQueue w') = []"
        using Inr x True
        by (cases "state w")
           (auto simp: runStep_def returning_Inr writeFunctionDefinitions_def finish_def clear_def
                 Let_def split: if_splits sum.splits prod.splits dest!: committing_Inr)
      with Inr x True show ?thesis by (subst process_loop.simps) simp
    next
      case False
      have "process_loop T w = process_loop T w'"
        using Inr x False by (subst process_loop.simps) simp
      with "1.IH"(2)[OF Inr x[symmetric]] False show ?thesis by simp
    qed
  next
    case (Inl x)
    obtain e w' where x: "x = (e, w')" by (cases x)
    show ?thesis
    proof (cases "e = E_MORE")
      case True
      with Inl x show ?thesis
        by (subst process_loop.simps) (simp add: Let_def reset_def clear_def)
    next
      case False
      have "process_loop T w = process_loop T (w'\<lparr>errors := errors w' @ [e], state := ERROR\<rparr>)"
        using Inl x False by (subst process_loop.simps) simp
      with "1.IH"(1)[OF Inl x[symmetric] False] show ?thesis by simp
    qed
  qed
qed

section \<open>Properties of the optimizer pass\<close>

text \<open>
  The nodes that can be reached from a set of roots along operand edges; the store in
  which the operand slots of the nodes in \<open>V\<close> have been overwritten; and the two shapes
  of store on which the walk of \<^verbatim>\<open>replace\<close> is followed. On a store with shared nodes
  the walk comes back to a node whose slots it has overwritten and goes on through the
  overwritten slots: the store is without cycles both before and after the overwriting,
  given by a weight that every node has in excess of the sum of its node operands. On a
  tree the walk meets every node once: the nodes \<open>S\<close> under the root list have one parent
  slot each, the roots none, and the weight is asked of the operands as they are; the
  replacement, which is outside the tree, may then hold the old node. On a cyclic
  structure the walk does not return.
\<close>

inductive_set reach :: "store \<Rightarrow> addr set \<Rightarrow> addr set" for h :: store and roots :: "addr set" where
  root: "a \<in> roots \<Longrightarrow> a \<in> reach h roots"
| child: "p \<in> reach h roots \<Longrightarrow> c \<in> set (stmts (operands (h p))) \<Longrightarrow> c \<in> reach h roots"






lemma subst_idem:
  "newStmt \<noteq> oldStmt \<Longrightarrow> map (subst oldStmt newStmt) (map (subst oldStmt newStmt) ops)
     = map (subst oldStmt newStmt) ops"
  by (induction ops) (auto simp: subst_def)


























end
